theory Spec2Isabelle
  imports Main "HOL-Library.Sublist"
begin

section \<open>Strings as the source uses them\<close>

text \<open>
  A JavaScript string is a sequence of code units. The model has the strings whose
  code units are below 256: a \<^typ>\<open>char\<close> stands for the code unit of the same
  number, and \<^typ>\<open>string\<close> for such a string. On these strings the functions below
  are the ones of the language; text with other code units is outside the model.
\<close>

definition NL :: char where
  "NL = CHR 0x0A"

definition CR :: char where
  "CR = CHR 0x0D"

definition is_ws :: "char \<Rightarrow> bool" where
  \<comment> \<open>the white space and line terminators that \<open>trim()\<close> and \<open>\s\<close> recognise: tab,
      line feed, vertical tab, form feed, carriage return, space and the no-break
      space \<open>U+00A0\<close> (the others are code units from 256 on)\<close>
  "is_ws c =
     (c \<in> set [CHR 0x09, CHR 0x0A, CHR 0x0B, CHR 0x0C, CHR 0x0D, CHR 0x20, CHR 0xA0])"

definition trim :: "string \<Rightarrow> string" where
  \<comment> \<open>\<open>s.trim()\<close>\<close>
  "trim s = rev (dropWhile is_ws (rev (dropWhile is_ws s)))"

definition endsWith :: "string \<Rightarrow> string \<Rightarrow> bool" where
  \<comment> \<open>\<open>s.endsWith(t)\<close>\<close>
  "endsWith s t = suffix t s"

fun str_includes :: "string \<Rightarrow> string \<Rightarrow> bool" where
  \<comment> \<open>\<open>s.includes(t)\<close>\<close>
  "str_includes [] t = (t = [])"
| "str_includes (c # cs) t = (prefix t (c # cs) \<or> str_includes cs t)"

definition upper_letters :: string where
  \<comment> \<open>the letters with a lower-case form: \<open>A\<close> to \<open>Z\<close>, and \<open>U+00C0\<close> to \<open>U+00DE\<close>
      without the multiplication sign \<open>U+00D7\<close>\<close>
  "upper_letters =
     ''ABCDEFGHIJKLMNOPQRSTUVWXYZ'' @
     [CHR 0xC0, CHR 0xC1, CHR 0xC2, CHR 0xC3, CHR 0xC4, CHR 0xC5, CHR 0xC6, CHR 0xC7,
      CHR 0xC8, CHR 0xC9, CHR 0xCA, CHR 0xCB, CHR 0xCC, CHR 0xCD, CHR 0xCE, CHR 0xCF,
      CHR 0xD0, CHR 0xD1, CHR 0xD2, CHR 0xD3, CHR 0xD4, CHR 0xD5, CHR 0xD6,
      CHR 0xD8, CHR 0xD9, CHR 0xDA, CHR 0xDB, CHR 0xDC, CHR 0xDD, CHR 0xDE]"

definition lower_letters :: string where
  \<comment> \<open>their lower-case forms, in the same order: the code unit 32 higher\<close>
  "lower_letters =
     ''abcdefghijklmnopqrstuvwxyz'' @
     [CHR 0xE0, CHR 0xE1, CHR 0xE2, CHR 0xE3, CHR 0xE4, CHR 0xE5, CHR 0xE6, CHR 0xE7,
      CHR 0xE8, CHR 0xE9, CHR 0xEA, CHR 0xEB, CHR 0xEC, CHR 0xED, CHR 0xEE, CHR 0xEF,
      CHR 0xF0, CHR 0xF1, CHR 0xF2, CHR 0xF3, CHR 0xF4, CHR 0xF5, CHR 0xF6,
      CHR 0xF8, CHR 0xF9, CHR 0xFA, CHR 0xFB, CHR 0xFC, CHR 0xFD, CHR 0xFE]"

definition lower_char :: "char \<Rightarrow> char" where
  "lower_char c =
     (case map_of (zip upper_letters lower_letters) c of
        Some l \<Rightarrow> l
      | None \<Rightarrow> c)"

definition toLowerCase :: "string \<Rightarrow> string" where
  "toLowerCase s = map lower_char s"

fun split_nl :: "string \<Rightarrow> string list" where
  \<comment> \<open>\<open>s.split('\n')\<close>: always at least one piece, the last piece may be empty\<close>
  "split_nl [] = [[]]"
| "split_nl (c # cs) =
     (if c = NL then [] # split_nl cs
      else (case split_nl cs of
              [] \<Rightarrow> [[c]]
            | l # ls \<Rightarrow> (c # l) # ls))"

definition digit_val :: "char \<Rightarrow> nat" where
  "digit_val c =
     (case map_of (zip ''0123456789'' [0, 1, 2, 3, 4, 5, 6, 7, 8, 9]) c of
        Some d \<Rightarrow> d
      | None \<Rightarrow> 0)"

definition decimal_value :: "string \<Rightarrow> nat" where
  "decimal_value s = foldl (\<lambda>acc c. 10 * acc + digit_val c) 0 s"

function bit_length :: "nat \<Rightarrow> nat" where
  "bit_length n = (if n = 0 then 0 else Suc (bit_length (n div 2)))"
  by pat_completeness auto
termination
  by (relation "measure id") auto

declare bit_length.simps [simp del]

definition to_double :: "nat \<Rightarrow> nat" where
  \<comment> \<open>the number (a double) nearest to an integer: 53 significant bits are kept, and a
      value half-way between two doubles goes to the one with an even last bit\<close>
  "to_double n =
     (if n < 2 ^ 53 then n
      else let e = bit_length n - 53; q = n div 2 ^ e; r = n mod 2 ^ e
           in if 2 ^ e < 2 * r \<or> (2 * r = 2 ^ e \<and> odd q) then (q + 1) * 2 ^ e
              else q * 2 ^ e)"

definition parseInt :: "string \<Rightarrow> nat" where
  \<comment> \<open>\<open>parseInt(s)\<close> on a string of decimal digits, the only strings the parsers pass:
      the number nearest to the value of the digits. (From \<open>2^1024\<close> on, a string of
      309 digits or more, the code has \<open>Infinity\<close>, which is not followed here.)\<close>
  "parseInt s = to_double (decimal_value s)"

definition or_default :: "string \<Rightarrow> string \<Rightarrow> string" where
  \<comment> \<open>\<open>s || d\<close> on strings: the empty string is falsy\<close>
  "or_default s d = (if s = [] then d else s)"


section \<open>The regular expressions of the two parsers\<close>

text \<open>
  Both patterns are anchored sequences of literals, greedy \<open>+\<close> repetitions of a
  character class, and one alternation of literals. The matcher below is the
  backtracking search of a JavaScript regular expression restricted to these items:
  a greedy repetition first takes the longest run and gives characters back one at a
  time; an alternation tries its branches from left to right; \<open>^\<close> and \<open>$\<close> (no
  \<open>m\<close> flag) force the match to cover the whole string.
\<close>

datatype char_class =
    Dot       \<comment> \<open>\<open>.\<close>: anything but a line terminator\<close>
  | Digit     \<comment> \<open>\<open>\d\<close>\<close>
  | Space     \<comment> \<open>\<open>\s\<close>\<close>
  | NotParen  \<comment> \<open>\<open>[^(]\<close>\<close>

fun in_class :: "char_class \<Rightarrow> char \<Rightarrow> bool" where
  "in_class Dot c = (c \<noteq> NL \<and> c \<noteq> CR)"
| "in_class Digit c = (c \<in> set ''0123456789'')"
| "in_class Space c = is_ws c"
| "in_class NotParen c = (c \<noteq> CHR ''('')"

datatype rx_item =
    Lit string              \<comment> \<open>literal text\<close>
  | Plus char_class         \<comment> \<open>\<open>c+\<close>, not captured\<close>
  | CapPlus char_class      \<comment> \<open>\<open>(c+)\<close>\<close>
  | CapAlt "string list"    \<comment> \<open>\<open>(a|b)\<close>\<close>

fun first_some :: "'a option list \<Rightarrow> 'a option" where
  "first_some [] = None"
| "first_some (Some x # _) = Some x"
| "first_some (None # xs) = first_some xs"

definition run_lengths :: "char_class \<Rightarrow> string \<Rightarrow> nat list" where
  \<comment> \<open>the lengths a greedy \<open>c+\<close> tries at the head of \<open>s\<close>, longest first\<close>
  "run_lengths c s = rev [1 ..< Suc (length (takeWhile (in_class c) s))]"

fun rx_match :: "rx_item list \<Rightarrow> string \<Rightarrow> string list option" where
  "rx_match [] s = (if s = [] then Some [] else None)"
| "rx_match (Lit l # p) s =
     (if prefix l s then rx_match p (drop (length l) s) else None)"
| "rx_match (Plus c # p) s =
     first_some (map (\<lambda>n. rx_match p (drop n s)) (run_lengths c s))"
| "rx_match (CapPlus c # p) s =
     first_some (map (\<lambda>n. map_option ((#) (take n s)) (rx_match p (drop n s)))
                     (run_lengths c s))"
| "rx_match (CapAlt alts # p) s =
     first_some (map (\<lambda>a. if prefix a s
                            then map_option ((#) a) (rx_match p (drop (length a) s))
                            else None) alts)"

definition js_match :: "rx_item list \<Rightarrow> string \<Rightarrow> string list option" where
  \<comment> \<open>\<open>s.match(re)\<close>: \<open>None\<close> for \<open>null\<close>, otherwise the array whose element 0 is the
      matched text and whose element \<open>k\<close> is capture group \<open>k\<close>\<close>
  "js_match p s = map_option ((#) s) (rx_match p s)"

definition jshint_re :: "rx_item list" where
  \<comment> \<open>\<open>/^(.+): line (\d+), col (\d+), (.+)$/\<close>\<close>
  "jshint_re =
     [CapPlus Dot, Lit '': line '', CapPlus Digit, Lit '', col '', CapPlus Digit,
      Lit '', '', CapPlus Dot]"

definition tsc_re :: "rx_item list" where
  \<comment> \<open>\<open>/^([^(]+)\((\d+),(\d+)\):\s+(error|warning)\s+(.+)$/\<close>\<close>
  "tsc_re =
     [CapPlus NotParen, Lit ''('', CapPlus Digit, Lit '','', CapPlus Digit, Lit ''):'',
      Plus Space, CapAlt [''error'', ''warning''], Plus Space, CapPlus Dot]"


definition rx_test :: "rx_item list \<Rightarrow> string \<Rightarrow> bool" where
  \<comment> \<open>\<open>re.test(s)\<close> for a pattern without \<open>^\<close> that ends in \<open>$\<close>: the search tries
      the start positions from left to right, and a match must reach the end of \<open>s\<close>\<close>
  "rx_test p s =
     (first_some (map (\<lambda>i. rx_match p (drop i s)) [0 ..< Suc (length s)]) \<noteq> None)"

definition ext_re :: "rx_item list" where
  \<comment> \<open>\<open>/\.(js|ts|tsx|vue)$/\<close>\<close>
  "ext_re = [Lit ''.'', CapAlt [''js'', ''ts'', ''tsx'', ''vue'']]"


section \<open>Findings and the output parsers\<close>

record Finding =
  filePath :: string
  line :: nat
  column :: nat
  message :: string
  severity :: string
  rule :: string
  source :: string

definition jshint_issue :: "string \<Rightarrow> string \<Rightarrow> Finding list" where
  \<comment> \<open>the body of the loop of \<open>parseJshintOutput\<close> for one line\<close>
  "jshint_issue fp ln =
     (case js_match jshint_re ln of
        None \<Rightarrow> []
      | Some m \<Rightarrow>
          [\<lparr> filePath = fp,
             line = parseInt (or_default (m ! 2) ''0''),
             column = parseInt (or_default (m ! 3) ''0''),
             message = or_default (m ! 4) ''Unknown error'',
             severity = ''warning'',
             rule = ''jshint'',
             source = ''jshint'' \<rparr>])"

definition parseJshintOutput :: "string \<Rightarrow> string \<Rightarrow> Finding list" where
  "parseJshintOutput output fp = concat (map (jshint_issue fp) (split_nl output))"

definition tsc_issue :: "string \<Rightarrow> Finding list" where
  \<comment> \<open>the body of the loop of \<open>parseTypeScriptErrors\<close> for one line\<close>
  "tsc_issue ln =
     (case js_match tsc_re ln of
        None \<Rightarrow> []
      | Some m \<Rightarrow>
          [\<lparr> filePath = trim (or_default (m ! 1) ''''),
             line = parseInt (or_default (m ! 2) ''0''),
             column = parseInt (or_default (m ! 3) ''0''),
             message = or_default (m ! 5) ''Unknown error'',
             severity = or_default (m ! 4) ''error'',
             rule = ''typescript'',
             source = ''typescript'' \<rparr>])"

definition parseTypeScriptErrors :: "string \<Rightarrow> Finding list" where
  "parseTypeScriptErrors output = concat (map tsc_issue (split_nl output))"


section \<open>Thrown values and decimal text\<close>

record js_error =
  is_Error :: bool                 \<comment> \<open>\<open>error instanceof Error\<close>\<close>
  error_code :: "string option"    \<comment> \<open>the \<open>code\<close> property; \<open>None\<close> when there is none\<close>
  error_message :: string          \<comment> \<open>\<open>error.message\<close> (for a non-Error value, \<open>String(error)\<close>)\<close>

definition new_Error :: "string \<Rightarrow> js_error" where
  \<comment> \<open>\<open>new Error(m)\<close>\<close>
  "new_Error m = \<lparr> is_Error = True, error_code = None, error_message = m \<rparr>"

function show_nat :: "nat \<Rightarrow> string" where
  "show_nat n =
     (if n < 10 then [''0123456789'' ! n]
      else show_nat (n div 10) @ [''0123456789'' ! (n mod 10)])"
  by pat_completeness auto
termination
  by (relation "measure id") auto

declare show_nat.simps [simp del]

definition show_int :: "int \<Rightarrow> string" where
  "show_int i = (if i < 0 then CHR ''-'' # show_nat (nat (- i)) else show_nat (nat i))"

definition show_code :: "int option \<Rightarrow> string" where
  \<comment> \<open>\<open>${code}\<close> for the exit status handed to \<open>'close'\<close>: a number, or \<open>null\<close> when
      the process was ended by a signal\<close>
  "show_code code = (case code of None \<Rightarrow> ''null'' | Some n \<Rightarrow> show_int n)"

definition isArgumentTooLongError :: "js_error \<Rightarrow> bool" where
  "isArgumentTooLongError error =
     (case error_code error of
        Some c \<Rightarrow> c = ''E2BIG''
      | None \<Rightarrow>
          if is_Error error
          then str_includes (toLowerCase (error_message error)) ''argument list too long''
          else False)"


section \<open>The process runners\<close>

text \<open>
  \<open>spawnGemini\<close> and \<open>spawnEslint\<close> of \<open>src/index.ts\<close>.
  A runner registers callbacks and returns a promise. The callbacks run one at a time, in
  the order the event loop delivers them; the model is the state the callbacks share
  (the two buffers, the \<open>settled\<close> flag, the timer) and one step function per runner.
  The calls of \<open>resolve\<close> and \<open>reject\<close> are recorded in order: the promise takes the
  first of them.
\<close>

datatype proc_event =
    StdoutData string        \<comment> \<open>\<open>child.stdout.on("data")\<close>\<close>
  | StderrData string        \<comment> \<open>\<open>child.stderr.on("data")\<close>\<close>
  | ErrorEvent js_error      \<comment> \<open>\<open>child.on("error")\<close>\<close>
  | CloseEvent "int option"  \<comment> \<open>\<open>child.on("close")\<close> with the exit status\<close>
  | TimerFires               \<comment> \<open>the \<open>setTimeout\<close> deadline is reached\<close>

record GeminiResult =
  stdout :: string
  stderr :: string

type_synonym settlement = "js_error + GeminiResult"
  \<comment> \<open>\<open>Inl\<close>: \<open>reject(error)\<close>; \<open>Inr\<close>: \<open>resolve(value)\<close>\<close>

record runner_state =
  st_stdout :: string           \<comment> \<open>\<open>let stdout\<close>\<close>
  st_stderr :: string           \<comment> \<open>\<open>let stderr\<close>\<close>
  settled :: bool               \<comment> \<open>\<open>let settled\<close>\<close>
  timer_armed :: bool           \<comment> \<open>the timer has neither fired nor been cleared\<close>
  kills :: nat                  \<comment> \<open>calls of \<open>child.kill("SIGTERM")\<close>\<close>
  warnings :: "string list"     \<comment> \<open>lines written with \<open>console.warn\<close>\<close>
  calls :: "settlement list"    \<comment> \<open>calls of \<open>resolve\<close> and \<open>reject\<close>, in order\<close>

definition runner_init :: runner_state where
  "runner_init =
     \<lparr> st_stdout = [], st_stderr = [], settled = False, timer_armed = True,
       kills = 0, warnings = [], calls = [] \<rparr>"

definition on_timeout :: "string \<Rightarrow> nat \<Rightarrow> runner_state \<Rightarrow> runner_state" where
  \<comment> \<open>the \<open>setTimeout\<close> callback, the same in both runners up to the tool's name;
      a cleared timer never runs it, and a timer runs it once\<close>
  "on_timeout tool timeoutMs s =
     (if \<not> timer_armed s then s
      else if settled s then s \<lparr> timer_armed := False \<rparr>
      else s \<lparr> timer_armed := False, settled := True, kills := Suc (kills s),
               calls := calls s @
                 [Inl (new_Error (tool @ '' timed out after '' @ show_nat timeoutMs @ '' ms''))] \<rparr>)"

definition on_error :: "js_error \<Rightarrow> runner_state \<Rightarrow> runner_state" where
  \<comment> \<open>the \<open>'error'\<close> handler, the same in both runners\<close>
  "on_error error s =
     (if settled s then s
      else s \<lparr> settled := True, timer_armed := False, calls := calls s @ [Inl error] \<rparr>)"

fun gemini_on :: "nat \<Rightarrow> runner_state \<Rightarrow> proc_event \<Rightarrow> runner_state" where
  "gemini_on timeoutMs s TimerFires = on_timeout ''Gemini CLI'' timeoutMs s"
| "gemini_on timeoutMs s (StdoutData d) = s \<lparr> st_stdout := st_stdout s @ d \<rparr>"
| "gemini_on timeoutMs s (StderrData d) = s \<lparr> st_stderr := st_stderr s @ d \<rparr>"
| "gemini_on timeoutMs s (ErrorEvent error) = on_error error s"
| "gemini_on timeoutMs s (CloseEvent code) =
     (if settled s then s
      else if code \<noteq> Some 0
      then s \<lparr> settled := True, timer_armed := False,
               calls := calls s @
                 [Inl (new_Error (''Gemini CLI exited with code '' @ show_code code @
                        (if st_stderr s \<noteq> [] then '': '' @ st_stderr s else [])))] \<rparr>
      else s \<lparr> settled := True, timer_armed := False,
               warnings := warnings s @
                 (if trim (st_stderr s) \<noteq> []
                  then [''Gemini CLI output on stderr: '' @ st_stderr s] else []),
               calls := calls s @
                 [Inr \<lparr> stdout = st_stdout s, stderr = st_stderr s \<rparr>] \<rparr>)"

fun eslint_on :: "nat \<Rightarrow> runner_state \<Rightarrow> proc_event \<Rightarrow> runner_state" where
  "eslint_on timeoutMs s TimerFires = on_timeout ''ESLint'' timeoutMs s"
| "eslint_on timeoutMs s (StdoutData d) = s \<lparr> st_stdout := st_stdout s @ d \<rparr>"
| "eslint_on timeoutMs s (StderrData d) = s \<lparr> st_stderr := st_stderr s @ d \<rparr>"
| "eslint_on timeoutMs s (ErrorEvent error) = on_error error s"
| "eslint_on timeoutMs s (CloseEvent unused_code) =
     (if settled s then s
      else s \<lparr> settled := True, timer_armed := False,
               calls := calls s @
                 [Inr \<lparr> stdout = st_stdout s, stderr = st_stderr s \<rparr>] \<rparr>)"

definition promise_of :: "runner_state \<Rightarrow> settlement option" where
  \<comment> \<open>the state of the returned promise: pending (\<open>None\<close>) or settled by the first call\<close>
  "promise_of s = (case calls s of [] \<Rightarrow> None | r # _ \<Rightarrow> Some r)"

definition deliver ::
  "(runner_state \<Rightarrow> proc_event \<Rightarrow> runner_state) \<Rightarrow> proc_event list \<Rightarrow> runner_state" where
  \<comment> \<open>the callbacks run on the events in order, starting from the fresh state\<close>
  "deliver on evs = foldl on runner_init evs"

fun is_data :: "proc_event \<Rightarrow> bool" where
  "is_data (StdoutData _) = True"
| "is_data (StderrData _) = True"
| "is_data _ = False"

fun out_chunk :: "proc_event \<Rightarrow> string" where
  "out_chunk (StdoutData d) = d"
| "out_chunk _ = []"

fun err_chunk :: "proc_event \<Rightarrow> string" where
  "err_chunk (StderrData d) = d"
| "err_chunk _ = []"


section \<open>The environment of a run\<close>

text \<open>
  What lies outside the source is a parameter: the processes (what \<open>spawn\<close> and
  \<open>exec\<close> do with a command), \<open>JSON.parse\<close>, and the wording of the prompt. A command
  is taken to behave the same way each time it is run within one call.
\<close>

datatype json =
    JNull
  | JBool bool
  | JNum string                     \<comment> \<open>a number, kept as the text it is printed with\<close>
  | JStr string
  | JArr "json list"
  | JObj "(string \<times> json) list"    \<comment> \<open>the properties in insertion order\<close>

type_synonym child = "string option \<Rightarrow> proc_event list"
  \<comment> \<open>what a launched process makes the event loop deliver, given what was written to
      its standard input before it was closed (\<open>None\<close>: nothing)\<close>

record env =
  spawn :: "string \<Rightarrow> string list \<Rightarrow> bool \<Rightarrow> js_error + child"
    \<comment> \<open>\<open>spawn(command, args, {shell})\<close>: throws, or launches a child\<close>
  exec :: "string \<Rightarrow> js_error + (string \<times> string)"
    \<comment> \<open>\<open>execAsync(commandLine)\<close>: the command line is run by a shell; rejects, or
        resolves with \<open>(stdout, stderr)\<close>\<close>
  JSON_parse :: "string \<Rightarrow> js_error + json"
    \<comment> \<open>\<open>JSON.parse\<close>\<close>
  prompt_template :: "string \<Rightarrow> string"
    \<comment> \<open>the fixed instructional text around \<open>${analysisData}\<close>\<close>

datatype invocation =
    Exec string
      \<comment> \<open>a command line handed to a shell by \<open>exec\<close> (its \<open>timeout\<close> option only
          bounds the run and is left out)\<close>
  | Spawn string "string list" bool "string option"
      \<comment> \<open>command, argument vector, the \<open>shell\<close> option, and the data written to the
          child's standard input (\<open>None\<close>: nothing was written)\<close>

definition stdin_data :: "string option \<Rightarrow> string option" where
  \<comment> \<open>\<open>child.stdin.end(input.endsWith("\n") ? input : `${input}\n`)\<close>, or
      \<open>child.stdin.end()\<close> when \<open>input\<close> is \<open>null\<close>\<close>
  "stdin_data input =
     (case input of
        None \<Rightarrow> None
      | Some i \<Rightarrow> Some (if endsWith i [NL] then i else i @ [NL]))"

definition spawnGemini ::
  "env \<Rightarrow> string list \<Rightarrow> string option \<Rightarrow> nat \<Rightarrow> settlement option \<times> invocation list" where
  \<comment> \<open>the timer is set when the child is launched, so its deadline follows whatever the
      child does before it\<close>
  "spawnGemini w args input timeoutMs =
     (case spawn w ''gemini'' args False of
        Inl spawnError \<Rightarrow>
          (Some (Inl spawnError), [Spawn ''gemini'' args False None])
      | Inr child \<Rightarrow>
          (promise_of (deliver (gemini_on timeoutMs) (child (stdin_data input) @ [TimerFires])),
           [Spawn ''gemini'' args False (stdin_data input)]))"

definition runGeminiPrompt ::
  "env \<Rightarrow> string \<Rightarrow> nat \<Rightarrow> settlement option \<times> invocation list" where
  "runGeminiPrompt w prompt timeoutMs =
     (case spawnGemini w [prompt] None timeoutMs of
        (Some (Inl error), log1) \<Rightarrow>
          if isArgumentTooLongError error
          then (case spawnGemini w [] (Some prompt) timeoutMs of
                  (r, log2) \<Rightarrow> (r, log1 @ log2))
          else (Some (Inl error), log1)
      | (r, log1) \<Rightarrow> (r, log1))"

definition spawnEslint ::
  "env \<Rightarrow> string list \<Rightarrow> nat \<Rightarrow> settlement option \<times> invocation list" where
  "spawnEslint w files timeoutMs =
     (case spawn w ''npx'' ([''eslint'', ''--format'', ''json''] @ files) True of
        Inl spawnError \<Rightarrow>
          (Some (Inl spawnError),
           [Spawn ''npx'' ([''eslint'', ''--format'', ''json''] @ files) True None])
      | Inr child \<Rightarrow>
          (promise_of (deliver (eslint_on timeoutMs) (child None @ [TimerFires])),
           [Spawn ''npx'' ([''eslint'', ''--format'', ''json''] @ files) True None]))"


section \<open>JSON text\<close>

text \<open>
  \<open>JSON.stringify(value, null, 2)\<close>, as the language standard defines it for the
  values that occur: objects and arrays are broken over lines and indented by two
  spaces a level, the empty ones are \<open>{}\<close> and \<open>[]\<close>.
\<close>

definition hex2 :: "nat \<Rightarrow> string" where
  "hex2 n = [''0123456789abcdef'' ! ((n div 16) mod 16), ''0123456789abcdef'' ! (n mod 16)]"

definition json_escape :: "char \<Rightarrow> string" where
  "json_escape c =
     (if c = CHR 0x22 then [CHR 0x5C, CHR 0x22]
      else if c = CHR 0x5C then [CHR 0x5C, CHR 0x5C]
      else if c = CHR 0x08 then [CHR 0x5C, CHR ''b'']
      else if c = CHR 0x0C then [CHR 0x5C, CHR ''f'']
      else if c = CHR 0x0A then [CHR 0x5C, CHR ''n'']
      else if c = CHR 0x0D then [CHR 0x5C, CHR ''r'']
      else if c = CHR 0x09 then [CHR 0x5C, CHR ''t'']
      else if (of_char c :: nat) < 32
      then [CHR 0x5C, CHR ''u'', CHR ''0'', CHR ''0''] @ hex2 (of_char c)
      else [c])"

definition json_quote :: "string \<Rightarrow> string" where
  "json_quote s = CHR 0x22 # concat (map json_escape s) @ [CHR 0x22]"

fun join :: "string \<Rightarrow> string list \<Rightarrow> string" where
  "join sep [] = []"
| "join sep [x] = x"
| "join sep (x # y # ys) = x @ sep @ join sep (y # ys)"

fun stringify_at :: "string \<Rightarrow> json \<Rightarrow> string" where
  \<comment> \<open>\<open>JSON.stringify(value, null, 2)\<close> below the indentation \<open>ind\<close>\<close>
  "stringify_at ind JNull = ''null''"
| "stringify_at ind (JBool b) = (if b then ''true'' else ''false'')"
| "stringify_at ind (JNum n) = n"
| "stringify_at ind (JStr s) = json_quote s"
| "stringify_at ind (JArr vs) =
     (if vs = [] then ''[]''
      else ''['' @ [NL] @ (ind @ ''  '') @
           join ('','' @ [NL] @ (ind @ ''  '')) (map (stringify_at (ind @ ''  '')) vs) @
           [NL] @ ind @ '']'')"
| "stringify_at ind (JObj kvs) =
     (if kvs = [] then ''{}''
      else ''{'' @ [NL] @ (ind @ ''  '') @
           join ('','' @ [NL] @ (ind @ ''  ''))
             (map (\<lambda>kv. json_quote (fst kv) @ '': '' @ stringify_at (ind @ ''  '') (snd kv)) kvs) @
           [NL] @ ind @ ''}'')"

definition JSON_stringify :: "json \<Rightarrow> string" where
  "JSON_stringify v = stringify_at [] v"

definition finding_json :: "Finding \<Rightarrow> json" where
  \<comment> \<open>the object literal pushed by the parsers, as \<open>JSON.stringify\<close> reads it (a
      number from \<open>10^21\<close> on is printed by the code with an exponent, which is not
      followed here)\<close>
  "finding_json f =
     JObj [(''filePath'', JStr (filePath f)),
           (''line'', JNum (show_nat (line f))),
           (''column'', JNum (show_nat (column f))),
           (''message'', JStr (message f)),
           (''severity'', JStr (severity f)),
           (''rule'', JStr (rule f)),
           (''source'', JStr (source f))]"

definition findings_json :: "Finding list \<Rightarrow> json" where
  "findings_json fs = JArr (map finding_json fs)"


section \<open>The analyzer selector\<close>

text \<open>
  \<open>runProjectLinter\<close> and its helpers. Every function returns its value together with
  the processes it started, in order.
\<close>

datatype try_result =
    Returned json      \<comment> \<open>a \<open>return\<close> inside the \<open>try\<close> block\<close>
  | Caught js_error    \<comment> \<open>the block threw; the \<open>catch\<close> logs a warning\<close>
  | NoReturn           \<comment> \<open>the block was skipped or ended without \<open>return\<close>\<close>
  | Hangs              \<comment> \<open>an awaited promise stays pending\<close>

fun checkFileExists :: "env \<Rightarrow> string list \<Rightarrow> bool \<times> invocation list" where
  "checkFileExists w [] = (False, [])"
| "checkFileExists w (file # files) =
     (case exec w (''test -f '' @ file) of
        Inr _ \<Rightarrow> (True, [Exec (''test -f '' @ file)])
      | Inl _ \<Rightarrow>
          (case checkFileExists w files of
             (found, log) \<Rightarrow> (found, Exec (''test -f '' @ file) # log)))"

definition checkCommandExists :: "env \<Rightarrow> string \<Rightarrow> bool \<times> invocation list" where
  "checkCommandExists w command =
     (case exec w (''which '' @ command) of
        Inr _ \<Rightarrow> (True, [Exec (''which '' @ command)])
      | Inl _ \<Rightarrow> (False, [Exec (''which '' @ command)]))"

definition eslint_configs :: "string list" where
  "eslint_configs =
     [''eslint.config.js'', ''.eslintrc.js'', ''.eslintrc.json'', ''.eslintrc.yml'',
      ''.eslintrc.yaml'', ''.eslintrc'']"

definition eslint_try :: "env \<Rightarrow> string list \<Rightarrow> try_result \<times> invocation list" where
  "eslint_try w changedFiles =
     (case spawnEslint w changedFiles 30000 of
        (None, log) \<Rightarrow> (Hangs, log)
      | (Some (Inl eslintError), log) \<Rightarrow> (Caught eslintError, log)
      | (Some (Inr res), log) \<Rightarrow>
          (if trim (stdout res) \<noteq> []
           then (case JSON_parse w (stdout res) of
                   Inl parseError \<Rightarrow> (Caught parseError, log)
                 | Inr linterReport \<Rightarrow> (Returned linterReport, log))
           else (Returned (JArr []), log)))"

fun jshint_loop ::
  "env \<Rightarrow> Finding list \<Rightarrow> string list \<Rightarrow> (js_error + Finding list) \<times> invocation list" where
  \<comment> \<open>\<open>for (const file of changedFiles)\<close>, with \<open>results\<close> as it stands\<close>
  "jshint_loop w results [] = (Inr results, [])"
| "jshint_loop w results (file # files) =
     (case exec w (''jshint '' @ file) of
        Inl jshintError \<Rightarrow> (Inl jshintError, [Exec (''jshint '' @ file)])
      | Inr (out, err) \<Rightarrow>
          (case jshint_loop w
                  (if err \<noteq> [] then results @ parseJshintOutput err file else results) files of
             (r, log) \<Rightarrow> (r, Exec (''jshint '' @ file) # log)))"

definition jshint_try :: "env \<Rightarrow> string list \<Rightarrow> try_result \<times> invocation list" where
  "jshint_try w changedFiles =
     (case jshint_loop w [] changedFiles of
        (Inl jshintError, log) \<Rightarrow> (Caught jshintError, log)
      | (Inr results, log) \<Rightarrow> (Returned (findings_json results), log))"

definition tsc_try :: "env \<Rightarrow> try_result \<times> invocation list" where
  "tsc_try w =
     (case exec w ''npx tsc --noEmit'' of
        Inl tscError \<Rightarrow> (Caught tscError, [Exec ''npx tsc --noEmit''])
      | Inr (out, err) \<Rightarrow>
          (if err \<noteq> [] then Returned (findings_json (parseTypeScriptErrors err)) else NoReturn,
           [Exec ''npx tsc --noEmit'']))"

definition then_try ::
  "try_result \<times> invocation list \<Rightarrow> try_result \<times> invocation list \<Rightarrow> try_result \<times> invocation list"
  where
  \<comment> \<open>statement sequencing: a \<open>return\<close> (or a promise that stays pending) ends the
      function, anything else goes on with the statements that follow\<close>
  "then_try a b =
     (case fst a of
        Returned v \<Rightarrow> a
      | Hangs \<Rightarrow> a
      | _ \<Rightarrow> (fst b, snd a @ snd b))"

definition eslint_step :: "env \<Rightarrow> string list \<Rightarrow> try_result \<times> invocation list" where
  "eslint_step w changedFiles =
     (case checkFileExists w eslint_configs of
        (hasEslintConfig, log) \<Rightarrow>
          if hasEslintConfig
          then (case eslint_try w changedFiles of (r, log') \<Rightarrow> (r, log @ log'))
          else (NoReturn, log))"

definition jshint_step :: "env \<Rightarrow> string list \<Rightarrow> try_result \<times> invocation list" where
  "jshint_step w changedFiles =
     (case checkCommandExists w ''jshint'' of
        (jshintExists, log) \<Rightarrow>
          if jshintExists
          then (case jshint_try w changedFiles of (r, log') \<Rightarrow> (r, log @ log'))
          else (NoReturn, log))"

definition tsc_step :: "env \<Rightarrow> string list \<Rightarrow> try_result \<times> invocation list" where
  "tsc_step w changedFiles =
     (case checkFileExists w [''tsconfig.json''] of
        (hasTsConfig, log) \<Rightarrow>
          if hasTsConfig \<and> list_ex (\<lambda>f. endsWith f ''.ts'' \<or> endsWith f ''.tsx'') changedFiles
          then (case tsc_try w of (r, log') \<Rightarrow> (r, log @ log'))
          else (NoReturn, log))"

definition runProjectLinter :: "env \<Rightarrow> string list \<Rightarrow> json option \<times> invocation list" where
  \<comment> \<open>\<open>None\<close>: the function never returns. Nothing outside the three inner \<open>try\<close> blocks
      can throw, so the outer \<open>catch\<close> has no case here\<close>
  "runProjectLinter w changedFiles =
     (case then_try (eslint_step w changedFiles)
             (then_try (jshint_step w changedFiles) (tsc_step w changedFiles)) of
        (Returned v, log) \<Rightarrow> (Some v, log)
      | (Hangs, log) \<Rightarrow> (None, log)
      | (_, log) \<Rightarrow> (Some (JArr []), log))"


section \<open>The change set and the orchestrator\<close>

text \<open>
  \<open>runHybridAnalysis\<close> and the handler of the tool \<open>review-local-changes\<close>.
\<close>

definition git_names_cmd :: string where
  "git_names_cmd = ''git diff HEAD --name-only --diff-filter=AM''"

definition changed_files :: "string \<Rightarrow> string list" where
  \<comment> \<open>\<open>gitFiles.split('\n').filter(file => file.trim() !== '').filter(file => re.test(file))\<close>\<close>
  "changed_files gitFiles =
     filter (rx_test ext_re) (filter (\<lambda>file. trim file \<noteq> []) (split_nl gitFiles))"

definition runHybridAnalysis :: "env \<Rightarrow> (js_error + string) option \<times> invocation list" where
  \<comment> \<open>\<open>Inl\<close>: the function throws; \<open>None\<close>: it never returns\<close>
  "runHybridAnalysis w =
     (case exec w git_names_cmd of
        Inl error \<Rightarrow> (Some (Inl error), [Exec git_names_cmd])
      | Inr (gitFiles, _) \<Rightarrow>
          if length (changed_files gitFiles) = 0
          then (Some (Inr ''{}''), [Exec git_names_cmd])
          else
            (case runProjectLinter w (changed_files gitFiles) of
               (None, log) \<Rightarrow> (None, Exec git_names_cmd # log)
             | (Some linterReport, log) \<Rightarrow>
                 (case exec w ''git diff HEAD'' of
                    Inl error \<Rightarrow>
                      (Some (Inl error), Exec git_names_cmd # log @ [Exec ''git diff HEAD''])
                  | Inr (gitDiff, _) \<Rightarrow>
                      (Some (Inr (JSON_stringify
                                    (JObj [(''diff'', JStr gitDiff),
                                           (''linterReport'', linterReport)]))),
                       Exec git_names_cmd # log @ [Exec ''git diff HEAD'']))))"

definition canonical_empty :: json where
  "canonical_empty =
     JObj [(''summary'', JStr ''No relevant files changed.''),
           (''assessment'', JStr []),
           (''findings'', JArr [])]"

definition wrap_error :: "js_error \<Rightarrow> js_error" where
  \<comment> \<open>\<open>new Error(`An unexpected error occurred: ${errorMessage}`)\<close>; the second copy of
      the server in \<open>index.ts\<close> rethrows \<open>error\<close> itself, and differs in nothing else
      but its log lines\<close>
  "wrap_error error = new_Error (''An unexpected error occurred: '' @ error_message error)"

definition review_local_changes :: "env \<Rightarrow> (js_error + string) option \<times> invocation list" where
  \<comment> \<open>the handler of the tool \<open>review-local-changes\<close>; the value is the \<open>text\<close> of the
      content it returns\<close>
  "review_local_changes w =
     (case runHybridAnalysis w of
        (None, log) \<Rightarrow> (None, log)
      | (Some (Inl error), log) \<Rightarrow> (Some (Inl (wrap_error error)), log)
      | (Some (Inr analysisData), log) \<Rightarrow>
          if analysisData = ''{}''
          then (Some (Inr (JSON_stringify canonical_empty)), log)
          else
            (case runGeminiPrompt w (prompt_template w analysisData) 120000 of
               (None, log') \<Rightarrow> (None, log @ log')
             | (Some (Inl error), log') \<Rightarrow> (Some (Inl (wrap_error error)), log @ log')
             | (Some (Inr res), log') \<Rightarrow> (Some (Inr (stdout res)), log @ log')))"


section \<open>Notions of the specification\<close>

text \<open>
  The definitions of this section do not come from the source. They say, in the
  specification's words, what the source is compared with.
\<close>

fun rx_sem :: "rx_item list \<Rightarrow> string \<Rightarrow> string list \<Rightarrow> bool" where
  \<comment> \<open>the string splits into pieces that fit the items in order; the captured pieces
      are listed\<close>
  "rx_sem [] s caps = (s = [] \<and> caps = [])"
| "rx_sem (Lit l # p) s caps = (\<exists>r. s = l @ r \<and> rx_sem p r caps)"
| "rx_sem (Plus c # p) s caps =
     (\<exists>g r. s = g @ r \<and> g \<noteq> [] \<and> list_all (in_class c) g \<and> rx_sem p r caps)"
| "rx_sem (CapPlus c # p) s caps =
     (\<exists>g r rest. s = g @ r \<and> g \<noteq> [] \<and> list_all (in_class c) g \<and> caps = g # rest \<and>
        rx_sem p r rest)"
| "rx_sem (CapAlt alts # p) s caps =
     (\<exists>a r rest. a \<in> set alts \<and> s = a @ r \<and> caps = a # rest \<and> rx_sem p r rest)"

definition jshint_shape :: "string \<Rightarrow> bool" where
  \<comment> \<open>a line of the form \<open><file>: line <n>, col <n>, <message>\<close>\<close>
  "jshint_shape ln =
     (\<exists>file n c m.
        ln = file @ '': line '' @ n @ '', col '' @ c @ '', '' @ m \<and>
        file \<noteq> [] \<and> list_all (in_class Dot) file \<and>
        n \<noteq> [] \<and> list_all (in_class Digit) n \<and>
        c \<noteq> [] \<and> list_all (in_class Digit) c \<and>
        m \<noteq> [] \<and> list_all (in_class Dot) m)"

definition tsc_shape :: "string \<Rightarrow> bool" where
  \<comment> \<open>a line of the form \<open><file>(<line>,<col>): <error|warning> <message>\<close>\<close>
  "tsc_shape ln =
     (\<exists>file n c w1 sev w2 m.
        ln = file @ ''('' @ n @ '','' @ c @ ''):'' @ w1 @ sev @ w2 @ m \<and>
        file \<noteq> [] \<and> list_all (in_class NotParen) file \<and>
        n \<noteq> [] \<and> list_all (in_class Digit) n \<and>
        c \<noteq> [] \<and> list_all (in_class Digit) c \<and>
        w1 \<noteq> [] \<and> list_all (in_class Space) w1 \<and>
        sev \<in> set [''error'', ''warning''] \<and>
        w2 \<noteq> [] \<and> list_all (in_class Space) w2 \<and>
        m \<noteq> [] \<and> list_all (in_class Dot) m)"

definition extension :: "string \<Rightarrow> string" where
  \<comment> \<open>the extension of a path: its text from the last dot on, empty without a dot\<close>
  "extension p =
     (if CHR ''.'' \<in> set p
      then CHR ''.'' # rev (takeWhile (\<lambda>c. c \<noteq> CHR ''.'') (rev p))
      else [])"

definition recognized_extensions :: "string list" where
  "recognized_extensions = [''.js'', ''.ts'', ''.tsx'', ''.vue'']"

definition runner_inv :: "runner_state \<Rightarrow> bool" where
  \<comment> \<open>settled states have made one call of \<open>resolve\<close> or \<open>reject\<close>, the others none\<close>
  "runner_inv s =
     (if settled s then length (calls s) = 1 else calls s = [] \<and> timer_armed s)"

definition too_long_signature :: "js_error \<Rightarrow> bool" where
  \<comment> \<open>the failure that is retried over standard input\<close>
  "too_long_signature e =
     (error_code e = Some ''E2BIG'' \<or>
      (error_code e = None \<and> is_Error e \<and>
       str_includes (toLowerCase (error_message e)) ''argument list too long''))"

definition eslint_feasible :: "env \<Rightarrow> bool" where
  \<comment> \<open>one of the recognised configuration files exists\<close>
  "eslint_feasible w = list_ex (\<lambda>f. \<not> isl (exec w (''test -f '' @ f))) eslint_configs"

definition jshint_feasible :: "env \<Rightarrow> bool" where
  \<comment> \<open>the executable is found on the path\<close>
  "jshint_feasible w = (\<not> isl (exec w ''which jshint''))"

definition tsc_feasible :: "env \<Rightarrow> string list \<Rightarrow> bool" where
  \<comment> \<open>\<open>tsconfig.json\<close> exists and a changed file ends in \<open>.ts\<close> or \<open>.tsx\<close>\<close>
  "tsc_feasible w changedFiles =
     (\<not> isl (exec w ''test -f tsconfig.json'') \<and>
      list_ex (\<lambda>f. endsWith f ''.ts'' \<or> endsWith f ''.tsx'') changedFiles)"

fun select_spec :: "(bool \<times> try_result) list \<Rightarrow> json option" where
  \<comment> \<open>the strategies in priority order, each with its feasibility and what running it
      gives: the first feasible one that returns decides, a feasible one that fails
      is passed over, and with none left the finding sequence is empty\<close>
  "select_spec [] = Some (JArr [])"
| "select_spec ((feasible, outcome) # rest) =
     (if feasible
      then (case outcome of
              Returned findings \<Rightarrow> Some findings
            | Hangs \<Rightarrow> None
            | _ \<Rightarrow> select_spec rest)
      else select_spec rest)"


definition jshint_findings :: "env \<Rightarrow> string list \<Rightarrow> Finding list" where
  \<comment> \<open>what JSHint alone reports for the files, in order\<close>
  "jshint_findings w files =
     concat (map (\<lambda>file. case exec w (''jshint '' @ file) of
                           Inr r \<Rightarrow> parseJshintOutput (snd r) file
                         | Inl _ \<Rightarrow> []) files)"


definition eslint_report :: "env \<Rightarrow> string list \<Rightarrow> json option" where
  \<comment> \<open>what the ESLint strategy yields, \<open>None\<close> when it fails. The process is launched
      with the changed files as arguments, and the first event that is not an output
      chunk decides: a \<open>'close'\<close>, whatever the exit status, gives the parsed standard
      output, or no finding when that output is blank; a launch that throws, an
      \<open>'error'\<close> event, the timeout (also when nothing but output ever comes) and
      output that is not JSON are failures\<close>
  "eslint_report w files =
     (case spawn w ''npx'' ([''eslint'', ''--format'', ''json''] @ files) True of
        Inl _ \<Rightarrow> None
      | Inr child \<Rightarrow>
          (case dropWhile is_data (child None) of
             CloseEvent code # _ \<Rightarrow>
               (let out = concat (map out_chunk (takeWhile is_data (child None)))
                in if trim out = [] then Some (JArr [])
                   else (case JSON_parse w out of
                           Inr report \<Rightarrow> Some report
                         | Inl _ \<Rightarrow> None))
           | _ \<Rightarrow> None))"

definition jshint_runs :: "env \<Rightarrow> string list \<Rightarrow> bool" where
  \<comment> \<open>JSHint succeeds on every file\<close>
  "jshint_runs w files = list_all (\<lambda>file. \<not> isl (exec w (''jshint '' @ file))) files"

definition tsc_report :: "env \<Rightarrow> json option" where
  \<comment> \<open>what the compiler strategy yields, \<open>None\<close> when it fails: the diagnostics on
      standard error\<close>
  "tsc_report w =
     (case exec w ''npx tsc --noEmit'' of
        Inl _ \<Rightarrow> None
      | Inr r \<Rightarrow> Some (findings_json (parseTypeScriptErrors (snd r))))"

definition analysis_spec :: "env \<Rightarrow> string list \<Rightarrow> json" where
  \<comment> \<open>the selection: ESLint if feasible and not failing, else JSHint if feasible and
      not failing, else the compiler if feasible and not failing, else nothing\<close>
  "analysis_spec w files =
     (case (if eslint_feasible w then eslint_report w files else None) of
        Some report \<Rightarrow> report
      | None \<Rightarrow>
          if jshint_feasible w \<and> jshint_runs w files
          then findings_json (jshint_findings w files)
          else (case (if tsc_feasible w files then tsc_report w else None) of
                  Some report \<Rightarrow> report
                | None \<Rightarrow> JArr []))"


section \<open>Example environments\<close>

definition no_process :: env where
  \<comment> \<open>nothing can be launched and every command line fails\<close>
  "no_process =
     \<lparr> spawn = (\<lambda>command args shell. Inl (new_Error ''spawn failed'')),
       exec = (\<lambda>commandLine. Inl (new_Error ''command failed'')),
       JSON_parse = (\<lambda>text. Inl (new_Error ''Unexpected token'')),
       prompt_template = (\<lambda>analysisData. ''CONTEXT START '' @ analysisData @ '' CONTEXT END'') \<rparr>"

definition enoent_too_long :: js_error where
  \<comment> \<open>an error with a \<open>code\<close> other than \<open>E2BIG\<close> whose message has the phrase\<close>
  "enoent_too_long =
     \<lparr> is_Error = True, error_code = Some ''ENOENT'',
       error_message = ''spawn gemini: Argument list too long'' \<rparr>"

definition e2big :: js_error where
  "e2big = \<lparr> is_Error = True, error_code = Some ''E2BIG'', error_message = ''spawn E2BIG'' \<rparr>"

definition spawn_fails_with :: "js_error \<Rightarrow> env" where
  "spawn_fails_with e = no_process \<lparr> spawn := (\<lambda>command args shell. Inl e) \<rparr>"

definition overflow_env :: env where
  \<comment> \<open>the reviewer cannot be launched with an argument, and answers on standard input\<close>
  "overflow_env =
     no_process \<lparr> spawn := (\<lambda>command args shell.
        if args = [] then Inr (\<lambda>input. [StdoutData ''{}'', CloseEvent (Some 0)])
        else Inl e2big) \<rparr>"

definition jshint_only :: env where
  \<comment> \<open>no configuration file, \<open>jshint\<close> on the path, one diagnostic per file\<close>
  "jshint_only =
     no_process \<lparr> exec := (\<lambda>commandLine.
        if commandLine = ''which jshint'' then Inr (''/usr/bin/jshint'', [])
        else if prefix ''jshint '' commandLine
        then Inr ([], ''stdin: line 1, col 2, Bad'')
        else Inl (new_Error ''command failed'')) \<rparr>"

definition broken_eslint :: env where
  \<comment> \<open>as \<open>jshint_only\<close>, with an ESLint configuration and an ESLint that cannot start\<close>
  "broken_eslint =
     jshint_only \<lparr> exec := (\<lambda>commandLine.
        if commandLine = ''test -f .eslintrc.json'' then Inr ([], [])
        else exec jshint_only commandLine) \<rparr>"

definition crashed_eslint :: env where
  \<comment> \<open>as \<open>broken_eslint\<close>, with an ESLint that starts, writes to standard error only
      and exits with status 2\<close>
  "crashed_eslint =
     broken_eslint \<lparr> spawn := (\<lambda>command args shell.
        Inr (\<lambda>input. [StderrData ''Oops'', CloseEvent (Some 2)])) \<rparr>"

definition eslint_reports :: env where
  \<comment> \<open>as \<open>broken_eslint\<close>, with an ESLint that prints the text \<open>[1]\<close> in two chunks and
      exits with status 1, and a \<open>JSON.parse\<close> that reads this text\<close>
  "eslint_reports =
     broken_eslint \<lparr>
       spawn := (\<lambda>command args shell.
         Inr (\<lambda>input. [StdoutData ''[1'', StdoutData '']'', CloseEvent (Some 1)])),
       JSON_parse := (\<lambda>text.
         if text = ''[1]'' then Inr (JArr [JNum ''1''])
         else Inl (new_Error ''Unexpected token'')) \<rparr>"

definition eslint_alone :: env where
  \<comment> \<open>an ESLint configuration, an ESLint that cannot start, and no other analyzer\<close>
  "eslint_alone =
     no_process \<lparr> exec := (\<lambda>commandLine.
        if commandLine = ''test -f .eslintrc.json'' then Inr ([], [])
        else Inl (new_Error ''command failed'')) \<rparr>"

definition nothing_changed :: env where
  \<comment> \<open>the listing succeeds and names no file with a recognised extension\<close>
  "nothing_changed =
     no_process \<lparr> exec := (\<lambda>commandLine.
        if commandLine = git_names_cmd then Inr (''README.md'' @ [NL], [])
        else Inl (new_Error ''command failed'')) \<rparr>"

definition one_changed :: env where
  \<comment> \<open>one changed file, no analyzer, a diff\<close>
  "one_changed =
     no_process \<lparr> exec := (\<lambda>commandLine.
        if commandLine = git_names_cmd then Inr (''a.ts'' @ [NL], [])
        else if commandLine = ''git diff HEAD'' then Inr (''--- fixture diff ---'', [])
        else Inl (new_Error ''command failed'')) \<rparr>"

definition answering_env :: env where
  \<comment> \<open>the reviewer starts with any arguments and answers\<close>
  "answering_env =
     no_process \<lparr> spawn := (\<lambda>command args shell.
        Inr (\<lambda>input. [StdoutData ''{}'', CloseEvent (Some 0)])) \<rparr>"


section \<open>Numbers read from digits\<close>

lemma digit_val_le: "digit_val c \<le> 9"
  by (simp add: digit_val_def)

lemma decimal_fold_bound:
  "foldl (\<lambda>acc c. 10 * acc + digit_val c) a s < (a + 1) * 10 ^ length s"
proof (induction s arbitrary: a)
  case Nil
  then show ?case by simp
next
  case (Cons c s)
  have step: "10 * a + digit_val c + 1 \<le> 10 * (a + 1)"
    using digit_val_le[of c] by simp
  have "foldl (\<lambda>acc c. 10 * acc + digit_val c) (10 * a + digit_val c) s
          < (10 * a + digit_val c + 1) * 10 ^ length s"
    by (rule Cons)
  also have "\<dots> \<le> (10 * (a + 1)) * 10 ^ length s"
    using step by (rule mult_le_mono1)
  also have "\<dots> = (a + 1) * 10 ^ length (c # s)"
    by (simp add: algebra_simps)
  finally show ?case by simp
qed

lemma to_double_small: "n < 2 ^ 53 \<Longrightarrow> to_double n = n"
  by (simp add: to_double_def)

lemma parseInt_short [code]:
  "parseInt s = (if length s \<le> 15 then decimal_value s else to_double (decimal_value s))"
proof (cases "length s \<le> 15")
  case True
  have "decimal_value s < 10 ^ length s"
    using decimal_fold_bound[of 0 s] by (simp add: decimal_value_def)
  also have "(10::nat) ^ length s \<le> 10 ^ 15"
    using True by (intro power_increasing) simp_all
  also have "(10::nat) ^ 15 < 2 ^ 53" by simp
  finally show ?thesis using True by (simp add: parseInt_def to_double_small)
next
  case False
  then show ?thesis by (simp add: parseInt_def)
qed


section \<open>The matcher against the declarative reading of a pattern\<close>

lemma first_some_Some:
  "first_some xs = Some y \<Longrightarrow> Some y \<in> set xs"
  by (induction xs rule: first_some.induct) auto

lemma first_some_None:
  "first_some xs = None \<longleftrightarrow> (\<forall>x\<in>set xs. x = None)"
  by (induction xs rule: first_some.induct) auto

lemma set_run_lengths:
  "set (run_lengths c s) = {n. 1 \<le> n \<and> n \<le> length (takeWhile (in_class c) s)}"
  by (auto simp: run_lengths_def)

lemma run_length_split:
  assumes "n \<in> set (run_lengths c s)"
  shows "s = take n s @ drop n s \<and> take n s \<noteq> [] \<and> list_all (in_class c) (take n s)"
proof -
  from assms have n: "1 \<le> n" "n \<le> length (takeWhile (in_class c) s)"
    by (auto simp: set_run_lengths)
  have le: "length (takeWhile (in_class c) s) \<le> length s"
    by (rule length_takeWhile_le)
  have "take n s = take n (takeWhile (in_class c) s)"
    using n(2) by (metis takeWhile_dropWhile_id take_append diff_is_0_eq' take_0 append_Nil2)
  moreover have "list_all (in_class c) (takeWhile (in_class c) s)"
    by (simp add: list_all_iff) (meson set_takeWhileD)
  ultimately have "list_all (in_class c) (take n s)"
    by (metis list_all_iff in_set_takeD)
  moreover have "take n s \<noteq> []" using n le by auto
  ultimately show ?thesis by simp
qed

lemma split_run_length:
  assumes "g \<noteq> []" "list_all (in_class c) g"
  shows "length g \<in> set (run_lengths c (g @ r))"
proof -
  have "takeWhile (in_class c) (g @ r) = g @ takeWhile (in_class c) r"
    using assms(2) by (simp add: list_all_iff)
  then show ?thesis using assms(1)
    by (auto simp: set_run_lengths Suc_le_eq)
qed

lemma first_some_map_ex:
  "first_some (map f xs) \<noteq> None \<longleftrightarrow> (\<exists>x\<in>set xs. f x \<noteq> None)"
  by (simp add: first_some_None)

lemma first_some_map_Some:
  "first_some (map f xs) = Some y \<Longrightarrow> \<exists>x\<in>set xs. f x = Some y"
  by (drule first_some_Some) auto

lemma rx_match_sound:
  "rx_match p s = Some caps \<Longrightarrow> rx_sem p s caps"
proof (induction p arbitrary: s caps)
  case Nil
  then show ?case by (simp split: if_splits)
next
  case (Cons it p)
  show ?case
  proof (cases it)
    case (Lit l)
    with Cons show ?thesis
      by (auto split: if_splits simp: prefix_def)
  next
    case (Plus c)
    with Cons.prems obtain n where n: "n \<in> set (run_lengths c s)" "rx_match p (drop n s) = Some caps"
      by (auto dest!: first_some_map_Some)
    have "s = take n s @ drop n s \<and> take n s \<noteq> [] \<and> list_all (in_class c) (take n s)
            \<and> rx_sem p (drop n s) caps"
      using Cons.IH[OF n(2)] run_length_split[OF n(1)] by simp
    then have "\<exists>g r. s = g @ r \<and> g \<noteq> [] \<and> list_all (in_class c) g \<and> rx_sem p r caps"
      by blast
    with Plus show ?thesis by simp
  next
    case (CapPlus c)
    with Cons.prems obtain n rest where n: "n \<in> set (run_lengths c s)"
      "rx_match p (drop n s) = Some rest" "caps = take n s # rest"
      by (auto dest!: first_some_map_Some)
    have "s = take n s @ drop n s \<and> take n s \<noteq> [] \<and> list_all (in_class c) (take n s)
            \<and> caps = take n s # rest \<and> rx_sem p (drop n s) rest"
      using Cons.IH[OF n(2)] run_length_split[OF n(1)] n(3) by simp
    then have "\<exists>g r rest. s = g @ r \<and> g \<noteq> [] \<and> list_all (in_class c) g
                 \<and> caps = g # rest \<and> rx_sem p r rest"
      by blast
    with CapPlus show ?thesis by simp
  next
    case (CapAlt alts)
    with Cons.prems obtain a rest where a: "a \<in> set alts" "prefix a s"
      "rx_match p (drop (length a) s) = Some rest" "caps = a # rest"
      by (auto dest!: first_some_map_Some split: if_splits)
    from Cons.IH[OF a(3)] a CapAlt show ?thesis
      by (auto simp: prefix_def)
  qed
qed

lemma rx_match_complete:
  "rx_sem p s caps \<Longrightarrow> rx_match p s \<noteq> None"
proof (induction p arbitrary: s caps)
  case Nil
  then show ?case by simp
next
  case (Cons it p)
  show ?case
  proof (cases it)
    case (Lit l)
    with Cons show ?thesis by auto
  next
    case (Plus c)
    with Cons.prems obtain g r where g: "s = g @ r" "g \<noteq> []" "list_all (in_class c) g" "rx_sem p r caps"
      by auto
    have "length g \<in> set (run_lengths c s)"
      using split_run_length[OF g(2,3), of r] g(1) by simp
    moreover have "rx_match p (drop (length g) s) \<noteq> None"
      using Cons.IH[OF g(4)] g(1) by simp
    ultimately have "\<exists>n\<in>set (run_lengths c s). rx_match p (drop n s) \<noteq> None"
      by blast
    with Plus show ?thesis
      by (simp only: rx_match.simps first_some_map_ex)
  next
    case (CapPlus c)
    with Cons.prems obtain g r rest where g: "s = g @ r" "g \<noteq> []" "list_all (in_class c) g" "rx_sem p r rest"
      by auto
    have "length g \<in> set (run_lengths c s)"
      using split_run_length[OF g(2,3), of r] g(1) by simp
    moreover have "map_option ((#) (take (length g) s)) (rx_match p (drop (length g) s)) \<noteq> None"
      using Cons.IH[OF g(4)] g(1) by simp
    ultimately have "\<exists>n\<in>set (run_lengths c s).
        map_option ((#) (take n s)) (rx_match p (drop n s)) \<noteq> None"
      by blast
    with CapPlus show ?thesis
      by (simp only: rx_match.simps first_some_map_ex)
  next
    case (CapAlt alts)
    with Cons.prems obtain a r rest where a: "a \<in> set alts" "s = a @ r" "rx_sem p r rest"
      by auto
    have "(if prefix a s then map_option ((#) a) (rx_match p (drop (length a) s)) else None) \<noteq> None"
      using Cons.IH[OF a(3)] a(2) by simp
    with a(1) have "\<exists>a\<in>set alts.
        (if prefix a s then map_option ((#) a) (rx_match p (drop (length a) s)) else None) \<noteq> None"
      by blast
    with CapAlt show ?thesis
      by (simp only: rx_match.simps first_some_map_ex)
  qed
qed

lemma rx_sem_LitI: "rx_sem p r caps \<Longrightarrow> rx_sem (Lit l # p) (l @ r) caps"
  by auto

lemma rx_sem_PlusI:
  "g \<noteq> [] \<Longrightarrow> list_all (in_class c) g \<Longrightarrow> rx_sem p r caps \<Longrightarrow> rx_sem (Plus c # p) (g @ r) caps"
  by auto

lemma rx_sem_CapPlusI:
  "g \<noteq> [] \<Longrightarrow> list_all (in_class c) g \<Longrightarrow> rx_sem p r rest
     \<Longrightarrow> rx_sem (CapPlus c # p) (g @ r) (g # rest)"
  by auto

lemma rx_sem_CapPlus_endI:
  "g \<noteq> [] \<Longrightarrow> list_all (in_class c) g \<Longrightarrow> rx_sem [CapPlus c] g [g]"
  by auto

lemma rx_sem_CapAltI:
  "a \<in> set alts \<Longrightarrow> rx_sem p r rest \<Longrightarrow> rx_sem (CapAlt alts # p) (a @ r) (a # rest)"
  by auto

lemma jshint_sem_fwd:
  assumes "rx_sem jshint_re s caps"
  shows "\<exists>file n c m. s = file @ '': line '' @ n @ '', col '' @ c @ '', '' @ m \<and> caps = [file, n, c, m]
        \<and> file \<noteq> [] \<and> list_all (in_class Dot) file \<and> n \<noteq> [] \<and> list_all (in_class Digit) n
        \<and> c \<noteq> [] \<and> list_all (in_class Digit) c \<and> m \<noteq> [] \<and> list_all (in_class Dot) m"
  using assms unfolding jshint_re_def rx_sem.simps
  apply (elim exE conjE)
  apply (simp only: append_Nil2)
  apply (intro exI conjI; (rule refl | assumption))
  done

lemma jshint_sem_bwd:
  assumes "file \<noteq> []" "list_all (in_class Dot) file" "n \<noteq> []" "list_all (in_class Digit) n"
        "c \<noteq> []" "list_all (in_class Digit) c" "m \<noteq> []" "list_all (in_class Dot) m"
  shows "rx_sem jshint_re (file @ '': line '' @ n @ '', col '' @ c @ '', '' @ m) [file, n, c, m]"
  unfolding jshint_re_def
  by (intro rx_sem_CapPlusI rx_sem_LitI rx_sem_CapPlus_endI assms)

lemma tsc_sem_fwd:
  assumes "rx_sem tsc_re s caps"
  shows "\<exists>file n c w1 sev w2 m.
        s = file @ ''('' @ n @ '','' @ c @ ''):'' @ w1 @ sev @ w2 @ m \<and> caps = [file, n, c, sev, m]
        \<and> file \<noteq> [] \<and> list_all (in_class NotParen) file \<and> n \<noteq> [] \<and> list_all (in_class Digit) n
        \<and> c \<noteq> [] \<and> list_all (in_class Digit) c \<and> w1 \<noteq> [] \<and> list_all (in_class Space) w1
        \<and> sev \<in> set [''error'', ''warning''] \<and> w2 \<noteq> [] \<and> list_all (in_class Space) w2
        \<and> m \<noteq> [] \<and> list_all (in_class Dot) m"
  using assms unfolding tsc_re_def rx_sem.simps
  apply (elim exE conjE)
  apply (simp only: append_Nil2)
  apply (intro exI conjI; (rule refl | assumption))
  done


section \<open>Properties of the runners\<close>

lemma runner_inv_init: "runner_inv runner_init"
  by (simp add: runner_inv_def runner_init_def)

lemma gemini_on_inv: "runner_inv s \<Longrightarrow> runner_inv (gemini_on t s e)"
  by (cases e) (auto simp: runner_inv_def on_timeout_def on_error_def split: if_splits)

lemma eslint_on_inv: "runner_inv s \<Longrightarrow> runner_inv (eslint_on t s e)"
  by (cases e) (auto simp: runner_inv_def on_timeout_def on_error_def split: if_splits)

lemma gemini_on_late:
  "settled s \<Longrightarrow> settled (gemini_on t s e) \<and> calls (gemini_on t s e) = calls s
     \<and> kills (gemini_on t s e) = kills s \<and> warnings (gemini_on t s e) = warnings s"
  by (cases e) (auto simp: on_timeout_def on_error_def)

lemma eslint_on_late:
  "settled s \<Longrightarrow> settled (eslint_on t s e) \<and> calls (eslint_on t s e) = calls s
     \<and> kills (eslint_on t s e) = kills s \<and> warnings (eslint_on t s e) = warnings s"
  by (cases e) (auto simp: on_timeout_def on_error_def)

lemma gemini_foldl_inv: "runner_inv s \<Longrightarrow> runner_inv (foldl (gemini_on t) s evs)"
  by (induction evs arbitrary: s) (auto simp: gemini_on_inv)

lemma eslint_foldl_inv: "runner_inv s \<Longrightarrow> runner_inv (foldl (eslint_on t) s evs)"
  by (induction evs arbitrary: s) (auto simp: eslint_on_inv)

lemma gemini_foldl_late:
  "settled s \<Longrightarrow> settled (foldl (gemini_on t) s evs) \<and> calls (foldl (gemini_on t) s evs) = calls s
     \<and> kills (foldl (gemini_on t) s evs) = kills s
     \<and> warnings (foldl (gemini_on t) s evs) = warnings s"
proof (induction evs arbitrary: s)
  case Nil
  then show ?case by simp
next
  case (Cons e evs)
  from gemini_on_late[OF Cons.prems, of t e] Cons.IH[of "gemini_on t s e"]
  show ?case by simp
qed

lemma eslint_foldl_late:
  "settled s \<Longrightarrow> settled (foldl (eslint_on t) s evs) \<and> calls (foldl (eslint_on t) s evs) = calls s
     \<and> kills (foldl (eslint_on t) s evs) = kills s
     \<and> warnings (foldl (eslint_on t) s evs) = warnings s"
proof (induction evs arbitrary: s)
  case Nil
  then show ?case by simp
next
  case (Cons e evs)
  from eslint_on_late[OF Cons.prems, of t e] Cons.IH[of "eslint_on t s e"]
  show ?case by simp
qed

lemma gemini_on_settles:
  "runner_inv s \<Longrightarrow> \<not> is_data e \<Longrightarrow> settled (gemini_on t s e)"
  by (cases e) (auto simp: runner_inv_def on_timeout_def on_error_def split: if_splits)

lemma eslint_on_settles:
  "runner_inv s \<Longrightarrow> \<not> is_data e \<Longrightarrow> settled (eslint_on t s e)"
  by (cases e) (auto simp: runner_inv_def on_timeout_def on_error_def split: if_splits)

lemma gemini_foldl_settles:
  "runner_inv s \<Longrightarrow> \<exists>e\<in>set evs. \<not> is_data e \<Longrightarrow> settled (foldl (gemini_on t) s evs)"
proof (induction evs arbitrary: s)
  case Nil
  then show ?case by simp
next
  case (Cons e evs)
  show ?case
  proof (cases "is_data e")
    case True
    with Cons.prems(2) have "\<exists>e\<in>set evs. \<not> is_data e" by auto
    from Cons.IH[OF gemini_on_inv[OF Cons.prems(1)] this] show ?thesis by simp
  next
    case False
    from gemini_on_settles[OF Cons.prems(1) False] gemini_foldl_late
    show ?thesis by simp
  qed
qed

lemma eslint_foldl_settles:
  "runner_inv s \<Longrightarrow> \<exists>e\<in>set evs. \<not> is_data e \<Longrightarrow> settled (foldl (eslint_on t) s evs)"
proof (induction evs arbitrary: s)
  case Nil
  then show ?case by simp
next
  case (Cons e evs)
  show ?case
  proof (cases "is_data e")
    case True
    with Cons.prems(2) have "\<exists>e\<in>set evs. \<not> is_data e" by auto
    from Cons.IH[OF eslint_on_inv[OF Cons.prems(1)] this] show ?thesis by simp
  next
    case False
    from eslint_on_settles[OF Cons.prems(1) False] eslint_foldl_late
    show ?thesis by simp
  qed
qed

lemma settled_one_call:
  "runner_inv s \<Longrightarrow> settled s \<Longrightarrow> \<exists>r. calls s = [r]"
  by (cases "calls s") (auto simp: runner_inv_def)

lemma data_prefix_gemini:
  "\<forall>e\<in>set pre. is_data e \<Longrightarrow>
     foldl (gemini_on t) s pre =
       s \<lparr> st_stdout := st_stdout s @ concat (map out_chunk pre),
           st_stderr := st_stderr s @ concat (map err_chunk pre) \<rparr>"
proof (induction pre arbitrary: s)
  case Nil
  then show ?case by simp
next
  case (Cons e pre)
  then show ?case by (cases e) auto
qed

lemma data_prefix_eslint:
  "\<forall>e\<in>set pre. is_data e \<Longrightarrow>
     foldl (eslint_on t) s pre =
       s \<lparr> st_stdout := st_stdout s @ concat (map out_chunk pre),
           st_stderr := st_stderr s @ concat (map err_chunk pre) \<rparr>"
proof (induction pre arbitrary: s)
  case Nil
  then show ?case by simp
next
  case (Cons e pre)
  then show ?case by (cases e) auto
qed

lemma gemini_close_after_data:
  assumes "\<forall>e\<in>set pre. is_data e"
  shows "calls (deliver (gemini_on t) (pre @ CloseEvent code # post)) =
           [if code = Some 0
            then Inr \<lparr> stdout = concat (map out_chunk pre), stderr = concat (map err_chunk pre) \<rparr>
            else Inl (new_Error (''Gemini CLI exited with code '' @ show_code code @
                       (if concat (map err_chunk pre) \<noteq> []
                        then '': '' @ concat (map err_chunk pre) else [])))]
         \<and> warnings (deliver (gemini_on t) (pre @ CloseEvent code # post)) =
           (if code = Some 0 \<and> trim (concat (map err_chunk pre)) \<noteq> []
            then [''Gemini CLI output on stderr: '' @ concat (map err_chunk pre)] else [])"
proof -
  let ?s1 = "foldl (gemini_on t) runner_init pre"
  let ?s2 = "gemini_on t ?s1 (CloseEvent code)"
  have s1: "?s1 = runner_init \<lparr> st_stdout := concat (map out_chunk pre),
                                 st_stderr := concat (map err_chunk pre) \<rparr>"
    using data_prefix_gemini[OF assms, of t runner_init] by (simp add: runner_init_def)
  have st: "settled ?s2"
    unfolding s1 by (simp add: runner_init_def)
  have split: "deliver (gemini_on t) (pre @ CloseEvent code # post) = foldl (gemini_on t) ?s2 post"
    by (simp add: deliver_def)
  have c2: "calls ?s2 =
           [if code = Some 0
            then Inr \<lparr> stdout = concat (map out_chunk pre), stderr = concat (map err_chunk pre) \<rparr>
            else Inl (new_Error (''Gemini CLI exited with code '' @ show_code code @
                       (if concat (map err_chunk pre) \<noteq> []
                        then '': '' @ concat (map err_chunk pre) else [])))]"
    unfolding s1 by (simp add: runner_init_def)
  have w2: "warnings ?s2 =
           (if code = Some 0 \<and> trim (concat (map err_chunk pre)) \<noteq> []
            then [''Gemini CLI output on stderr: '' @ concat (map err_chunk pre)] else [])"
    unfolding s1 by (simp add: runner_init_def)
  from gemini_foldl_late[OF st, of t post] c2 w2 split show ?thesis
    by simp
qed

lemma eslint_close_after_data:
  assumes "\<forall>e\<in>set pre. is_data e"
  shows "calls (deliver (eslint_on t) (pre @ CloseEvent code # post)) =
           [Inr \<lparr> stdout = concat (map out_chunk pre), stderr = concat (map err_chunk pre) \<rparr>]"
proof -
  let ?s1 = "foldl (eslint_on t) runner_init pre"
  let ?s2 = "eslint_on t ?s1 (CloseEvent code)"
  have s1: "?s1 = runner_init \<lparr> st_stdout := concat (map out_chunk pre),
                                 st_stderr := concat (map err_chunk pre) \<rparr>"
    using data_prefix_eslint[OF assms, of t runner_init] by (simp add: runner_init_def)
  have st: "settled ?s2"
    unfolding s1 by (simp add: runner_init_def)
  have split: "deliver (eslint_on t) (pre @ CloseEvent code # post) = foldl (eslint_on t) ?s2 post"
    by (simp add: deliver_def)
  have c2: "calls ?s2 =
           [Inr \<lparr> stdout = concat (map out_chunk pre), stderr = concat (map err_chunk pre) \<rparr>]"
    unfolding s1 by (simp add: runner_init_def)
  from eslint_foldl_late[OF st, of t post] c2 split show ?thesis
    by simp
qed

lemma gemini_resolves_only_on_clean_close:
  "runner_inv s \<Longrightarrow> \<not> settled s \<Longrightarrow>
   promise_of (foldl (gemini_on t) s evs) = Some (Inr r) \<Longrightarrow>
   \<exists>pre post. evs = pre @ CloseEvent (Some 0) # post \<and> (\<forall>e\<in>set pre. is_data e)"
proof (induction evs arbitrary: s)
  case Nil
  then show ?case by (simp add: promise_of_def runner_inv_def)
next
  case (Cons e evs)
  have empty: "calls s = []" using Cons.prems(1,2) by (simp add: runner_inv_def)
  have armed: "timer_armed s" using Cons.prems(1,2) by (simp add: runner_inv_def)
  show ?case
  proof (cases "is_data e")
    case True
    then have "\<not> settled (gemini_on t s e)"
      using Cons.prems(2) by (cases e) simp_all
    from Cons.IH[OF gemini_on_inv[OF Cons.prems(1)] this] Cons.prems(3)
    obtain pre post where pp: "evs = pre @ CloseEvent (Some 0) # post" "\<forall>e\<in>set pre. is_data e"
      by auto
    have "e # evs = (e # pre) @ CloseEvent (Some 0) # post" using pp(1) by simp
    moreover have "\<forall>x\<in>set (e # pre). is_data x" using pp(2) True by simp
    ultimately show ?thesis by blast
  next
    case False
    have st: "settled (gemini_on t s e)"
      by (rule gemini_on_settles[OF Cons.prems(1) False])
    have "promise_of (foldl (gemini_on t) (gemini_on t s e) evs) = promise_of (gemini_on t s e)"
      using gemini_foldl_late[OF st, of t evs] by (simp add: promise_of_def)
    with Cons.prems(3) have p: "promise_of (gemini_on t s e) = Some (Inr r)" by simp
    have "e = CloseEvent (Some 0)"
    proof (cases e)
      case (StdoutData d) with False show ?thesis by simp
    next
      case (StderrData d) with False show ?thesis by simp
    next
      case (ErrorEvent err)
      with p empty Cons.prems(2) show ?thesis
        by (simp add: promise_of_def on_error_def)
    next
      case (CloseEvent code)
      with p empty Cons.prems(2) show ?thesis
        by (simp add: promise_of_def split: if_splits)
    next
      case TimerFires
      with p empty armed Cons.prems(2) show ?thesis
        by (simp add: promise_of_def on_timeout_def)
    qed
    then have "e # evs = [] @ CloseEvent (Some 0) # evs" by simp
    then show ?thesis by (metis empty_iff list.set(1))
  qed
qed


lemma eslint_first_event:
  assumes "\<forall>e\<in>set pre. is_data e" "\<not> is_data x"
  shows "promise_of (deliver (eslint_on t) (pre @ x # post)) =
           promise_of (eslint_on t
             (runner_init \<lparr> st_stdout := concat (map out_chunk pre),
                            st_stderr := concat (map err_chunk pre) \<rparr>) x)"
proof -
  let ?s1 = "foldl (eslint_on t) runner_init pre"
  have s1: "?s1 = runner_init \<lparr> st_stdout := concat (map out_chunk pre),
                                 st_stderr := concat (map err_chunk pre) \<rparr>"
    using data_prefix_eslint[OF assms(1), of t runner_init] by (simp add: runner_init_def)
  have inv: "runner_inv ?s1"
    by (rule eslint_foldl_inv[OF runner_inv_init])
  have st: "settled (eslint_on t ?s1 x)"
    by (rule eslint_on_settles[OF inv assms(2)])
  have "deliver (eslint_on t) (pre @ x # post) = foldl (eslint_on t) (eslint_on t ?s1 x) post"
    by (simp add: deliver_def)
  with eslint_foldl_late[OF st, of t post]
  have "promise_of (deliver (eslint_on t) (pre @ x # post)) = promise_of (eslint_on t ?s1 x)"
    by (simp add: promise_of_def)
  then show ?thesis unfolding s1 .
qed

lemma eslint_promise:
  "promise_of (deliver (eslint_on t) (evs @ [TimerFires])) =
     (case dropWhile is_data evs of
        CloseEvent code # rest \<Rightarrow>
          Some (Inr \<lparr> stdout = concat (map out_chunk (takeWhile is_data evs)),
                      stderr = concat (map err_chunk (takeWhile is_data evs)) \<rparr>)
      | ErrorEvent error # rest \<Rightarrow> Some (Inl error)
      | _ \<Rightarrow> Some (Inl (new_Error (''ESLint timed out after '' @ show_nat t @ '' ms''))))"
proof -
  let ?pre = "takeWhile is_data evs"
  have pre: "\<forall>e\<in>set ?pre. is_data e" by (auto dest: set_takeWhileD)
  show ?thesis
  proof (cases "dropWhile is_data evs")
    case Nil
    then have "evs = ?pre" by (metis takeWhile_dropWhile_id append_Nil2)
    then have "evs @ [TimerFires] = ?pre @ TimerFires # []" by simp
    then have "promise_of (deliver (eslint_on t) (evs @ [TimerFires])) =
        promise_of (eslint_on t
             (runner_init \<lparr> st_stdout := concat (map out_chunk ?pre),
                            st_stderr := concat (map err_chunk ?pre) \<rparr>) TimerFires)"
      using eslint_first_event[OF pre, of TimerFires t "[]"] by simp
    then have "promise_of (deliver (eslint_on t) (evs @ [TimerFires])) =
        Some (Inl (new_Error (''ESLint timed out after '' @ show_nat t @ '' ms'')))"
      by (simp add: promise_of_def runner_init_def on_timeout_def)
    then show ?thesis unfolding Nil by simp
  next
    case (Cons x rest)
    then have nd: "\<not> is_data x"
      using hd_dropWhile[of is_data evs] by simp
    have "evs = ?pre @ x # rest"
      using Cons takeWhile_dropWhile_id[of is_data evs] by simp
    then have F: "evs @ [TimerFires] = ?pre @ x # (rest @ [TimerFires])" by simp
    have p: "promise_of (deliver (eslint_on t) (evs @ [TimerFires])) =
        promise_of (eslint_on t
             (runner_init \<lparr> st_stdout := concat (map out_chunk ?pre),
                            st_stderr := concat (map err_chunk ?pre) \<rparr>) x)"
      unfolding F by (rule eslint_first_event[OF pre nd])
    show ?thesis
    proof (cases x)
      case (StdoutData d) with nd show ?thesis by simp
    next
      case (StderrData d) with nd show ?thesis by simp
    next
      case (ErrorEvent error)
      show ?thesis unfolding p Cons ErrorEvent
        by (simp add: promise_of_def runner_init_def on_error_def)
    next
      case (CloseEvent code)
      show ?thesis unfolding p Cons CloseEvent
        by (simp add: promise_of_def runner_init_def)
    next
      case TimerFires
      show ?thesis unfolding p Cons TimerFires
        by (simp add: promise_of_def runner_init_def on_timeout_def)
    qed
  qed
qed


section \<open>Properties of the parsers\<close>

lemma jshint_shape_iff: "jshint_shape ln \<longleftrightarrow> rx_match jshint_re ln \<noteq> None"
proof
  assume "jshint_shape ln"
  then obtain fl n c m where
    "ln = fl @ '': line '' @ n @ '', col '' @ c @ '', '' @ m"
    "fl \<noteq> []" "list_all (in_class Dot) fl" "n \<noteq> []" "list_all (in_class Digit) n"
    "c \<noteq> []" "list_all (in_class Digit) c" "m \<noteq> []" "list_all (in_class Dot) m"
    unfolding jshint_shape_def by blast
  then have "rx_sem jshint_re ln [fl, n, c, m]"
    using jshint_sem_bwd by simp
  then show "rx_match jshint_re ln \<noteq> None"
    by (rule rx_match_complete)
next
  assume "rx_match jshint_re ln \<noteq> None"
  then obtain caps where "rx_match jshint_re ln = Some caps" by auto
  then have "rx_sem jshint_re ln caps" by (rule rx_match_sound)
  from jshint_sem_fwd[OF this] show "jshint_shape ln"
    unfolding jshint_shape_def by blast
qed

lemma jshint_issue_no_match:
  "rx_match jshint_re ln = None \<Longrightarrow> jshint_issue fp ln = []"
  by (simp add: jshint_issue_def js_match_def)

lemma jshint_issue_match:
  assumes "rx_match jshint_re ln = Some caps"
  shows "\<exists>file n c m. caps = [file, n, c, m] \<and> n \<noteq> [] \<and> c \<noteq> [] \<and> m \<noteq> [] \<and>
           jshint_issue fp ln =
             [\<lparr> filePath = fp, line = parseInt n, column = parseInt c, message = m,
                severity = ''warning'', rule = ''jshint'', source = ''jshint'' \<rparr>]"
proof -
  from jshint_sem_fwd[OF rx_match_sound[OF assms]] obtain fl n c m where
    c: "caps = [fl, n, c, m]" "n \<noteq> []" "c \<noteq> []" "m \<noteq> []" by blast
  then have "jshint_issue fp ln =
             [\<lparr> filePath = fp, line = parseInt n, column = parseInt c, message = m,
                severity = ''warning'', rule = ''jshint'', source = ''jshint'' \<rparr>]"
    using assms by (simp add: jshint_issue_def js_match_def or_default_def)
  with c show ?thesis by blast
qed

lemma jshint_issue_fields:
  "f \<in> set (jshint_issue fp ln) \<Longrightarrow>
     filePath f = fp \<and> message f \<noteq> [] \<and> severity f = ''warning'' \<and> source f = ''jshint''"
proof (cases "rx_match jshint_re ln")
  case None
  assume "f \<in> set (jshint_issue fp ln)"
  with jshint_issue_no_match[OF None] show ?thesis by simp
next
  case (Some caps)
  assume f: "f \<in> set (jshint_issue fp ln)"
  from jshint_issue_match[OF Some, of fp] obtain n c m where
    m: "m \<noteq> []" "jshint_issue fp ln =
             [\<lparr> filePath = fp, line = parseInt n, column = parseInt c, message = m,
                severity = ''warning'', rule = ''jshint'', source = ''jshint'' \<rparr>]"
    by blast
  from f have "f = \<lparr> filePath = fp, line = parseInt n, column = parseInt c, message = m,
                severity = ''warning'', rule = ''jshint'', source = ''jshint'' \<rparr>"
    unfolding m(2) by simp
  with m(1) show ?thesis by simp
qed

lemma jshint_issue_length:
  "length (jshint_issue fp ln) = (if jshint_shape ln then 1 else 0)"
proof (cases "rx_match jshint_re ln")
  case None
  with jshint_issue_no_match[OF None] show ?thesis by (simp add: jshint_shape_iff)
next
  case (Some caps)
  from jshint_issue_match[OF Some, of fp] obtain x where "jshint_issue fp ln = [x]"
    by blast
  with Some show ?thesis
    by (simp add: jshint_shape_iff)
qed

lemma length_concat_map_filter:
  "(\<And>x. length (f x) = (if P x then 1 else 0)) \<Longrightarrow>
     length (concat (map f xs)) = length (filter P xs)"
  by (induction xs) auto

lemma concat_map_filter_nonempty:
  "(\<And>x. \<not> P x \<Longrightarrow> f x = []) \<Longrightarrow> concat (map f (filter P xs)) = concat (map f xs)"
  by (induction xs) auto

lemma tsc_issue_match:
  assumes "rx_match tsc_re ln = Some caps"
  shows "\<exists>file n c sev m. caps = [file, n, c, sev, m] \<and> m \<noteq> [] \<and>
           sev \<in> set [''error'', ''warning''] \<and>
           file = takeWhile (\<lambda>x. x \<noteq> CHR ''('') ln \<and>
           tsc_issue ln =
             [\<lparr> filePath = trim file, line = parseInt n, column = parseInt c, message = m,
                severity = sev, rule = ''typescript'', source = ''typescript'' \<rparr>]"
proof -
  from tsc_sem_fwd[OF rx_match_sound[OF assms]] obtain fl n c w1 sev w2 m where
    c: "ln = fl @ ''('' @ n @ '','' @ c @ ''):'' @ w1 @ sev @ w2 @ m"
       "caps = [fl, n, c, sev, m]" "fl \<noteq> []" "list_all (in_class NotParen) fl"
       "n \<noteq> []" "c \<noteq> []" "sev \<in> set [''error'', ''warning'']" "m \<noteq> []"
    by (elim exE conjE) (rule that; assumption)
  have tw: "takeWhile (\<lambda>x. x \<noteq> CHR ''('') ln = fl"
  proof -
    have "\<forall>x\<in>set fl. x \<noteq> CHR ''(''"
      using c(4) by (simp add: list_all_iff)
    then show ?thesis
      unfolding c(1) by simp
  qed
  have sev: "sev \<noteq> []"
    using c(7) by auto
  have "tsc_issue ln =
             [\<lparr> filePath = trim fl, line = parseInt n, column = parseInt c, message = m,
                severity = sev, rule = ''typescript'', source = ''typescript'' \<rparr>]"
    unfolding tsc_issue_def js_match_def assms c(2)
    using c(3,5,6,8) sev by (simp add: or_default_def)
  with c(2,7,8) tw show ?thesis by simp
qed

lemma tsc_issue_fields:
  "f \<in> set (tsc_issue ln) \<Longrightarrow>
     message f \<noteq> [] \<and> filePath f = trim (takeWhile (\<lambda>x. x \<noteq> CHR ''('') ln) \<and>
     severity f \<in> set [''error'', ''warning''] \<and> source f = ''typescript''"
proof (cases "rx_match tsc_re ln")
  case None
  assume "f \<in> set (tsc_issue ln)"
  with None show ?thesis by (simp add: tsc_issue_def js_match_def)
next
  case (Some caps)
  assume f: "f \<in> set (tsc_issue ln)"
  from tsc_issue_match[OF Some] obtain n c sev m where
    m: "m \<noteq> []" "sev \<in> set [''error'', ''warning'']" "tsc_issue ln =
             [\<lparr> filePath = trim (takeWhile (\<lambda>x. x \<noteq> CHR ''('') ln), line = parseInt n,
                column = parseInt c, message = m,
                severity = sev, rule = ''typescript'', source = ''typescript'' \<rparr>]"
    by (elim exE conjE) (rule that; simp)
  from f have "f = \<lparr> filePath = trim (takeWhile (\<lambda>x. x \<noteq> CHR ''('') ln), line = parseInt n,
                column = parseInt c, message = m,
                severity = sev, rule = ''typescript'', source = ''typescript'' \<rparr>"
    unfolding m(3) by simp
  with m(1,2) show ?thesis by simp
qed

lemma jshint_skips_unshaped: "\<not> jshint_shape ln \<Longrightarrow> jshint_issue fp ln = []"
  by (simp add: jshint_shape_iff jshint_issue_no_match)

lemma changed_files_nonempty: "file \<in> set (changed_files gitFiles) \<Longrightarrow> file \<noteq> []"
  by (auto simp: changed_files_def trim_def)


lemma tsc_sem_bwd:
  assumes "file \<noteq> []" "list_all (in_class NotParen) file"
        "n \<noteq> []" "list_all (in_class Digit) n"
        "c \<noteq> []" "list_all (in_class Digit) c"
        "w1 \<noteq> []" "list_all (in_class Space) w1"
        "sev \<in> set [''error'', ''warning'']"
        "w2 \<noteq> []" "list_all (in_class Space) w2"
        "m \<noteq> []" "list_all (in_class Dot) m"
  shows "rx_sem tsc_re (file @ ''('' @ n @ '','' @ c @ ''):'' @ w1 @ sev @ w2 @ m)
           [file, n, c, sev, m]"
  unfolding tsc_re_def
  by (intro rx_sem_CapPlusI rx_sem_LitI rx_sem_PlusI rx_sem_CapAltI rx_sem_CapPlus_endI assms)

lemma tsc_shape_iff: "tsc_shape ln \<longleftrightarrow> rx_match tsc_re ln \<noteq> None"
proof
  assume "tsc_shape ln"
  then obtain fl n c w1 sev w2 m where
    s: "ln = fl @ ''('' @ n @ '','' @ c @ ''):'' @ w1 @ sev @ w2 @ m"
    and a: "fl \<noteq> []" "list_all (in_class NotParen) fl"
      "n \<noteq> []" "list_all (in_class Digit) n"
      "c \<noteq> []" "list_all (in_class Digit) c"
      "w1 \<noteq> []" "list_all (in_class Space) w1"
      "sev \<in> set [''error'', ''warning'']"
      "w2 \<noteq> []" "list_all (in_class Space) w2"
      "m \<noteq> []" "list_all (in_class Dot) m"
    unfolding tsc_shape_def by (elim exE conjE) (rule that; assumption)
  have "rx_sem tsc_re ln [fl, n, c, sev, m]"
    unfolding s by (rule tsc_sem_bwd) (rule a)+
  then show "rx_match tsc_re ln \<noteq> None"
    by (rule rx_match_complete)
next
  assume "rx_match tsc_re ln \<noteq> None"
  then obtain caps where "rx_match tsc_re ln = Some caps" by auto
  then have "rx_sem tsc_re ln caps" by (rule rx_match_sound)
  from tsc_sem_fwd[OF this] show "tsc_shape ln"
    unfolding tsc_shape_def
    apply (elim exE conjE)
    apply (intro exI conjI; assumption)
    done
qed

lemma tsc_issue_unshaped: "\<not> tsc_shape ln \<Longrightarrow> tsc_issue ln = []"
  by (simp add: tsc_shape_iff tsc_issue_def js_match_def)

lemma tsc_issue_shaped:
  assumes "tsc_shape ln"
  shows "\<exists>f. tsc_issue ln = [f] \<and> filePath f = trim (takeWhile (\<lambda>x. x \<noteq> CHR ''('') ln)"
proof -
  from assms obtain caps where "rx_match tsc_re ln = Some caps"
    unfolding tsc_shape_iff by auto
  from tsc_issue_match[OF this] obtain fl n c sev m where
    "fl = takeWhile (\<lambda>x. x \<noteq> CHR ''('') ln"
    "tsc_issue ln =
       [\<lparr> filePath = trim fl, line = parseInt n, column = parseInt c, message = m,
          severity = sev, rule = ''typescript'', source = ''typescript'' \<rparr>]"
    by (elim exE conjE) (rule that; assumption)
  then show ?thesis by simp
qed

lemma tsc_filePaths:
  "map filePath (concat (map tsc_issue lns)) =
     map (\<lambda>ln. trim (takeWhile (\<lambda>x. x \<noteq> CHR ''('') ln)) (filter tsc_shape lns)"
proof (induction lns)
  case Nil
  show ?case by simp
next
  case (Cons ln lns)
  show ?case
  proof (cases "tsc_shape ln")
    case True
    from tsc_issue_shaped[OF True] obtain f where
      "tsc_issue ln = [f]" "filePath f = trim (takeWhile (\<lambda>x. x \<noteq> CHR ''('') ln)"
      by (elim exE conjE) (rule that; assumption)
    with True Cons show ?thesis by simp
  next
    case False
    with tsc_issue_unshaped[OF False] Cons show ?thesis by simp
  qed
qed


section \<open>Properties of the argument transport\<close>

lemma gemini_deadline_settles:
  "\<exists>r. promise_of (deliver (gemini_on t) (evs @ [TimerFires])) = Some r"
proof -
  let ?s = "deliver (gemini_on t) (evs @ [TimerFires])"
  have "\<exists>e\<in>set (evs @ [TimerFires]). \<not> is_data e" by simp
  then have "settled ?s"
    unfolding deliver_def by (rule gemini_foldl_settles[OF runner_inv_init])
  moreover have "runner_inv ?s"
    unfolding deliver_def by (rule gemini_foldl_inv[OF runner_inv_init])
  ultimately obtain r where "calls ?s = [r]" using settled_one_call by blast
  then show ?thesis by (simp add: promise_of_def)
qed

lemma eslint_deadline_settles:
  "\<exists>r. promise_of (deliver (eslint_on t) (evs @ [TimerFires])) = Some r"
proof -
  let ?s = "deliver (eslint_on t) (evs @ [TimerFires])"
  have "\<exists>e\<in>set (evs @ [TimerFires]). \<not> is_data e" by simp
  then have "settled ?s"
    unfolding deliver_def by (rule eslint_foldl_settles[OF runner_inv_init])
  moreover have "runner_inv ?s"
    unfolding deliver_def by (rule eslint_foldl_inv[OF runner_inv_init])
  ultimately obtain r where "calls ?s = [r]" using settled_one_call by blast
  then show ?thesis by (simp add: promise_of_def)
qed

lemma spawnGemini_settles: "\<exists>r. fst (spawnGemini w args input t) = Some r"
  using gemini_deadline_settles
  by (cases "spawn w ''gemini'' args False") (simp_all add: spawnGemini_def)

lemma spawnEslint_settles: "\<exists>r. fst (spawnEslint w files t) = Some r"
  using eslint_deadline_settles
  by (cases "spawn w ''npx'' ([''eslint'', ''--format'', ''json''] @ files) True")
     (simp_all add: spawnEslint_def)

lemma spawnGemini_log:
  "snd (spawnGemini w args input t) =
     [Spawn ''gemini'' args False
        (if isl (spawn w ''gemini'' args False) then None else stdin_data input)]"
  by (cases "spawn w ''gemini'' args False") (simp_all add: spawnGemini_def)

lemma too_long_signature_iff: "too_long_signature e \<longleftrightarrow> isArgumentTooLongError e"
  by (cases "error_code e") (auto simp: too_long_signature_def isArgumentTooLongError_def)

lemma phrase_in_enoent_message:
  "str_includes (toLowerCase (error_message enoent_too_long)) ''argument list too long''"
  by code_simp


section \<open>Properties of the change set and of the analysis run\<close>

lemma trim_eq_Nil: "trim p = [] \<longleftrightarrow> (\<forall>x\<in>set p. is_ws x)"
proof
  assume "trim p = []"
  then have all: "\<forall>x\<in>set (dropWhile is_ws p). is_ws x"
    by (simp add: trim_def)
  have "dropWhile is_ws p = []"
  proof (cases "dropWhile is_ws p")
    case Nil
    then show ?thesis .
  next
    case (Cons y ys)
    then have "\<not> is_ws y" using hd_dropWhile[of is_ws p] by simp
    moreover from all Cons have "is_ws y" by simp
    ultimately show ?thesis by simp
  qed
  then show "\<forall>x\<in>set p. is_ws x" by simp
next
  assume "\<forall>x\<in>set p. is_ws x"
  then show "trim p = []" by (auto simp: trim_def dest: set_dropWhileD)
qed

lemma rx_match_iff_sem: "rx_match p s \<noteq> None \<longleftrightarrow> (\<exists>caps. rx_sem p s caps)"
  using rx_match_sound rx_match_complete by blast

lemma ext_re_sem:
  "(\<exists>caps. rx_sem ext_re t caps) \<longleftrightarrow> (\<exists>a\<in>set [''js'', ''ts'', ''tsx'', ''vue'']. t = CHR ''.'' # a)"
  by (auto simp: ext_re_def)

lemma suffix_iff_drop: "suffix x s \<longleftrightarrow> (\<exists>i\<in>set [0 ..< Suc (length s)]. drop i s = x)"
proof
  assume "suffix x s"
  then obtain zs where zs: "s = zs @ x" by (auto simp: suffix_def)
  then have "drop (length zs) s = x" by simp
  moreover have "length zs \<in> set [0 ..< Suc (length s)]" using zs by simp
  ultimately show "\<exists>i\<in>set [0 ..< Suc (length s)]. drop i s = x" by blast
next
  assume "\<exists>i\<in>set [0 ..< Suc (length s)]. drop i s = x"
  then obtain i where "drop i s = x" by blast
  then have "s = take i s @ x" by (metis append_take_drop_id)
  then show "suffix x s" by (auto simp: suffix_def)
qed

lemma rx_test_ext:
  "rx_test ext_re p \<longleftrightarrow> (\<exists>a\<in>set [''js'', ''ts'', ''tsx'', ''vue'']. suffix (CHR ''.'' # a) p)"
proof -
  have "rx_test ext_re p \<longleftrightarrow>
        (\<exists>i\<in>set [0 ..< Suc (length p)]. \<exists>a\<in>set [''js'', ''ts'', ''tsx'', ''vue''].
            drop i p = CHR ''.'' # a)"
    unfolding rx_test_def first_some_map_ex rx_match_iff_sem ext_re_sem ..
  also have "\<dots> \<longleftrightarrow> (\<exists>a\<in>set [''js'', ''ts'', ''tsx'', ''vue''].
                      \<exists>i\<in>set [0 ..< Suc (length p)]. drop i p = CHR ''.'' # a)"
    by blast
  finally show ?thesis unfolding suffix_iff_drop[symmetric] .
qed

lemma extension_suffix:
  assumes "CHR ''.'' \<notin> set a"
  shows "suffix (CHR ''.'' # a) p \<longleftrightarrow> extension p = CHR ''.'' # a"
proof
  assume "suffix (CHR ''.'' # a) p"
  then obtain zs where zs: "p = zs @ CHR ''.'' # a" by (auto simp: suffix_def)
  have rp: "rev p = rev a @ CHR ''.'' # rev zs" using zs by simp
  have "takeWhile (\<lambda>c. c \<noteq> CHR ''.'') (rev a @ CHR ''.'' # rev zs) = rev a"
    using assms by (subst takeWhile_append2) auto
  then have "takeWhile (\<lambda>c. c \<noteq> CHR ''.'') (rev p) = rev a"
    unfolding rp .
  then show "extension p = CHR ''.'' # a"
    using zs by (simp add: extension_def)
next
  assume e: "extension p = CHR ''.'' # a"
  then have dot: "CHR ''.'' \<in> set p" by (auto simp: extension_def split: if_splits)
  with e have a: "a = rev (takeWhile (\<lambda>c. c \<noteq> CHR ''.'') (rev p))"
    by (simp add: extension_def)
  from dot have "dropWhile (\<lambda>c. c \<noteq> CHR ''.'') (rev p) \<noteq> []"
    by simp
  then obtain y ys where d: "dropWhile (\<lambda>c. c \<noteq> CHR ''.'') (rev p) = y # ys"
    by (cases "dropWhile (\<lambda>c. c \<noteq> CHR ''.'') (rev p)") auto
  then have "y = CHR ''.''"
    using hd_dropWhile[of "\<lambda>c. c \<noteq> CHR ''.''" "rev p"] by simp
  with d have "rev p = rev a @ CHR ''.'' # ys"
    using a takeWhile_dropWhile_id[of "\<lambda>c. c \<noteq> CHR ''.''" "rev p"] by simp
  then have "rev (rev p) = rev (rev a @ CHR ''.'' # ys)" by simp
  then have "p = rev ys @ CHR ''.'' # a" by simp
  then show "suffix (CHR ''.'' # a) p" by (auto simp: suffix_def)
qed

lemma rx_test_ext_extension:
  "rx_test ext_re p \<longleftrightarrow> extension p \<in> set recognized_extensions"
proof -
  have "rx_test ext_re p \<longleftrightarrow>
      suffix ''.js'' p \<or> suffix ''.ts'' p \<or> suffix ''.tsx'' p \<or> suffix ''.vue'' p"
    unfolding rx_test_ext by simp
  also have "\<dots> \<longleftrightarrow> extension p = ''.js'' \<or> extension p = ''.ts'' \<or>
      extension p = ''.tsx'' \<or> extension p = ''.vue''"
    using extension_suffix[of "''js''" p] extension_suffix[of "''ts''" p]
          extension_suffix[of "''tsx''" p] extension_suffix[of "''vue''" p]
    by simp
  finally show ?thesis by (simp add: recognized_extensions_def)
qed

lemma rha_listing_fails:
  "exec w git_names_cmd = Inl e \<Longrightarrow>
     runHybridAnalysis w = (Some (Inl e), [Exec git_names_cmd])"
  by (simp add: runHybridAnalysis_def)

lemma rha_no_changes:
  "exec w git_names_cmd = Inr (gitFiles, err) \<Longrightarrow> changed_files gitFiles = [] \<Longrightarrow>
     runHybridAnalysis w = (Some (Inr ''{}''), [Exec git_names_cmd])"
  by (simp add: runHybridAnalysis_def)

lemma rha_changes:
  "exec w git_names_cmd = Inr (gitFiles, err) \<Longrightarrow> changed_files gitFiles \<noteq> [] \<Longrightarrow>
     runHybridAnalysis w =
       (case fst (runProjectLinter w (changed_files gitFiles)) of
          None \<Rightarrow> (None, Exec git_names_cmd # snd (runProjectLinter w (changed_files gitFiles)))
        | Some linterReport \<Rightarrow>
            (case exec w ''git diff HEAD'' of
               Inl error \<Rightarrow>
                 (Some (Inl error),
                  Exec git_names_cmd # snd (runProjectLinter w (changed_files gitFiles)) @
                    [Exec ''git diff HEAD''])
             | Inr d \<Rightarrow>
                 (Some (Inr (JSON_stringify
                               (JObj [(''diff'', JStr (fst d)),
                                      (''linterReport'', linterReport)]))),
                  Exec git_names_cmd # snd (runProjectLinter w (changed_files gitFiles)) @
                    [Exec ''git diff HEAD''])))"
  by (cases "runProjectLinter w (changed_files gitFiles)")
     (simp add: runHybridAnalysis_def split: option.splits sum.splits prod.splits)

lemma runHybridAnalysis_first_command:
  "\<exists>rest. snd (runHybridAnalysis w) = Exec git_names_cmd # rest"
proof (cases "exec w git_names_cmd")
  case (Inl e)
  then show ?thesis by (simp add: rha_listing_fails)
next
  case (Inr r)
  then have ex: "exec w git_names_cmd = Inr (fst r, snd r)" by simp
  show ?thesis
  proof (cases "changed_files (fst r) = []")
    case True
    from rha_no_changes[OF ex True] show ?thesis by simp
  next
    case False
    show ?thesis
      unfolding rha_changes[OF ex False]
      by (simp split: option.splits sum.splits)
  qed
qed

lemma ext_nonblank: "rx_test ext_re p \<Longrightarrow> trim p \<noteq> []"
proof
  assume t: "rx_test ext_re p" and b: "trim p = []"
  from t obtain a where "suffix (CHR ''.'' # a) p"
    unfolding rx_test_ext by blast
  then have "set (CHR ''.'' # a) \<subseteq> set p" by (rule set_mono_suffix)
  then have "CHR ''.'' \<in> set p" by simp
  with b have "is_ws (CHR ''.'')" unfolding trim_eq_Nil by blast
  then show False by (simp add: is_ws_def)
qed

lemma changed_files_by_extension:
  "changed_files gitFiles =
     filter (\<lambda>p. extension p \<in> set recognized_extensions) (split_nl gitFiles)"
proof -
  have "filter (rx_test ext_re) (filter (\<lambda>file. trim file \<noteq> []) (split_nl gitFiles)) =
        filter (\<lambda>p. trim p \<noteq> [] \<and> rx_test ext_re p) (split_nl gitFiles)"
    by (simp only: filter_filter)
  also have "\<dots> = filter (rx_test ext_re) (split_nl gitFiles)"
    using ext_nonblank by (intro filter_cong refl) blast
  also have "\<dots> = filter (\<lambda>p. extension p \<in> set recognized_extensions) (split_nl gitFiles)"
    by (intro filter_cong refl) (rule rx_test_ext_extension)
  finally show ?thesis unfolding changed_files_def .
qed

lemma changed_files_nonblank: "p \<in> set (changed_files gitFiles) \<Longrightarrow> trim p \<noteq> []"
  by (simp add: changed_files_def)

lemma stringify_object_not_braces:
  "stringify_at ind (JObj (kv # kvs)) \<noteq> ''{}''"
  by (simp add: NL_def)

lemma rha_returns_braces_iff:
  "fst (runHybridAnalysis w) = Some (Inr ''{}'') \<longleftrightarrow>
     (\<exists>gitFiles err. exec w git_names_cmd = Inr (gitFiles, err) \<and> changed_files gitFiles = [])"
proof (cases "exec w git_names_cmd")
  case (Inl e)
  then show ?thesis by (simp add: rha_listing_fails)
next
  case (Inr r)
  obtain g e where r: "r = (g, e)" by (cases r)
  with Inr have ex: "exec w git_names_cmd = Inr (g, e)" by simp
  show ?thesis
  proof (cases "changed_files g = []")
    case True
    from rha_no_changes[OF ex True]
    have "fst (runHybridAnalysis w) = Some (Inr ''{}'')" by simp
    moreover have "\<exists>gitFiles err. exec w git_names_cmd = Inr (gitFiles, err) \<and>
        changed_files gitFiles = []"
      using ex True by blast
    ultimately show ?thesis by simp
  next
    case False
    have "fst (runHybridAnalysis w) \<noteq> Some (Inr ''{}'')"
      unfolding rha_changes[OF ex False]
      using stringify_object_not_braces
      by (simp add: JSON_stringify_def split: option.splits sum.splits)
    moreover have "\<not> (\<exists>gitFiles err. exec w git_names_cmd = Inr (gitFiles, err) \<and>
        changed_files gitFiles = [])"
      using ex False by simp
    ultimately show ?thesis by simp
  qed
qed

lemma rha_payload:
  assumes "exec w git_names_cmd = Inr (gitFiles, err)" "changed_files gitFiles \<noteq> []"
          "fst (runHybridAnalysis w) = Some (Inr s)"
  shows "\<exists>gitDiff err' linterReport.
           exec w ''git diff HEAD'' = Inr (gitDiff, err') \<and>
           fst (runProjectLinter w (changed_files gitFiles)) = Some linterReport \<and>
           s = JSON_stringify (JObj [(''diff'', JStr gitDiff), (''linterReport'', linterReport)])"
proof -
  from assms(3) obtain linterReport where
    lr: "fst (runProjectLinter w (changed_files gitFiles)) = Some linterReport"
    unfolding rha_changes[OF assms(1,2)] by (auto split: option.splits)
  from assms(3) obtain d where d: "exec w ''git diff HEAD'' = Inr d"
    unfolding rha_changes[OF assms(1,2)] lr by (auto split: sum.splits)
  from assms(3) have "s = JSON_stringify (JObj [(''diff'', JStr (fst d)), (''linterReport'', linterReport)])"
    unfolding rha_changes[OF assms(1,2)] lr d by simp
  moreover have "exec w ''git diff HEAD'' = Inr (fst d, snd d)" using d by simp
  ultimately show ?thesis using lr by blast
qed


section \<open>Properties of the analyzer selector\<close>

lemma checkFileExists_fst:
  "fst (checkFileExists w files) = list_ex (\<lambda>f. \<not> isl (exec w (''test -f '' @ f))) files"
  by (induction files) (auto split: sum.splits prod.splits)

lemma checkCommandExists_fst:
  "fst (checkCommandExists w command) = (\<not> isl (exec w (''which '' @ command)))"
  by (simp add: checkCommandExists_def split: sum.splits)

lemma eslint_step_fst:
  "fst (eslint_step w files) = (if eslint_feasible w then fst (eslint_try w files) else NoReturn)"
  using checkFileExists_fst[of w eslint_configs]
  by (cases "checkFileExists w eslint_configs"; cases "eslint_try w files")
     (simp add: eslint_step_def eslint_feasible_def)

lemma jshint_step_fst:
  "fst (jshint_step w files) = (if jshint_feasible w then fst (jshint_try w files) else NoReturn)"
  using checkCommandExists_fst[of w "''jshint''"]
  by (cases "checkCommandExists w ''jshint''"; cases "jshint_try w files")
     (simp add: jshint_step_def jshint_feasible_def)

lemma tsc_step_fst:
  "fst (tsc_step w files) = (if tsc_feasible w files then fst (tsc_try w) else NoReturn)"
  using checkFileExists_fst[of w "[''tsconfig.json'']"]
  by (cases "checkFileExists w [''tsconfig.json'']"; cases "tsc_try w")
     (simp add: tsc_step_def tsc_feasible_def)

lemma then_try_fst:
  "fst (then_try a b) =
     (case fst a of Returned v \<Rightarrow> Returned v | Hangs \<Rightarrow> Hangs | Caught e \<Rightarrow> fst b
      | NoReturn \<Rightarrow> fst b)"
  by (cases a; cases "fst a") (simp_all add: then_try_def)

lemma runProjectLinter_fst:
  "fst (runProjectLinter w files) =
     (case fst (then_try (eslint_step w files)
                  (then_try (jshint_step w files) (tsc_step w files))) of
        Returned v \<Rightarrow> Some v | Hangs \<Rightarrow> None | Caught e \<Rightarrow> Some (JArr [])
      | NoReturn \<Rightarrow> Some (JArr []))"
  by (cases "then_try (eslint_step w files) (then_try (jshint_step w files) (tsc_step w files))";
      cases "fst (then_try (eslint_step w files)
                  (then_try (jshint_step w files) (tsc_step w files)))")
     (simp_all add: runProjectLinter_def)

lemma selector_refines_spec:
  "fst (runProjectLinter w files) =
     select_spec [(eslint_feasible w, fst (eslint_try w files)),
                  (jshint_feasible w, fst (jshint_try w files)),
                  (tsc_feasible w files, fst (tsc_try w))]"
  unfolding runProjectLinter_fst then_try_fst eslint_step_fst jshint_step_fst tsc_step_fst
  by (cases "fst (eslint_try w files)"; cases "fst (jshint_try w files)"; cases "fst (tsc_try w)")
     simp_all

lemma eslint_try_no_hang: "fst (eslint_try w files) \<noteq> Hangs"
proof -
  from spawnEslint_settles[of w files 30000] obtain r where
    r: "fst (spawnEslint w files 30000) = Some r" ..
  then show ?thesis
    by (cases "spawnEslint w files 30000"; cases r)
       (simp_all add: eslint_try_def split: sum.splits)
qed

lemma jshint_try_no_hang: "fst (jshint_try w files) \<noteq> Hangs"
  by (cases "jshint_loop w [] files"; cases "fst (jshint_loop w [] files)")
     (simp_all add: jshint_try_def)

lemma tsc_try_no_hang: "fst (tsc_try w) \<noteq> Hangs"
  by (simp add: tsc_try_def split: sum.splits prod.splits)

lemma selector_returns: "fst (runProjectLinter w files) \<noteq> None"
  unfolding selector_refines_spec
  using eslint_try_no_hang[of w files] jshint_try_no_hang[of w files] tsc_try_no_hang[of w]
  by (cases "fst (eslint_try w files)"; cases "fst (jshint_try w files)"; cases "fst (tsc_try w)")
     simp_all

lemma parseJshintOutput_empty: "parseJshintOutput [] fp = []"
  by (simp add: parseJshintOutput_def jshint_issue_def js_match_def jshint_re_def
        run_lengths_def)

lemma jshint_loop_findings:
  "fst (jshint_loop w results files) = Inr rs \<Longrightarrow> rs = results @ jshint_findings w files"
proof (induction files arbitrary: results)
  case Nil
  then show ?case by (simp add: jshint_findings_def)
next
  case (Cons f files)
  show ?case
  proof (cases "exec w (''jshint '' @ f)")
    case (Inl e)
    with Cons.prems show ?thesis by simp
  next
    case (Inr r)
    obtain out err where r: "r = (out, err)" by (cases r)
    let ?results = "if err \<noteq> [] then results @ parseJshintOutput err f else results"
    have "fst (jshint_loop w ?results files) = Inr rs"
      using Cons.prems Inr r by (auto split: prod.splits if_splits)
    from Cons.IH[OF this] have "rs = ?results @ jshint_findings w files" .
    moreover have "?results = results @ parseJshintOutput err f"
      by (simp add: parseJshintOutput_empty)
    moreover have "jshint_findings w (f # files) =
        parseJshintOutput err f @ jshint_findings w files"
      using Inr r by (simp add: jshint_findings_def)
    ultimately show ?thesis by simp
  qed
qed

lemma jshint_try_findings:
  "fst (jshint_try w files) = Returned v \<Longrightarrow> v = findings_json (jshint_findings w files)"
proof -
  assume a: "fst (jshint_try w files) = Returned v"
  obtain r log where l: "jshint_loop w [] files = (r, log)" by (cases "jshint_loop w [] files")
  with a obtain rs where rs: "r = Inr rs" "v = findings_json rs"
    by (cases r) (simp_all add: jshint_try_def)
  from l rs(1) have "fst (jshint_loop w [] files) = Inr rs" by simp
  from jshint_loop_findings[OF this] rs(2) show ?thesis by simp
qed


lemma eslint_try_report:
  "(eslint_report w files = Some r \<longrightarrow> fst (eslint_try w files) = Returned r)
   \<and> (eslint_report w files = None \<longrightarrow> (\<exists>e. fst (eslint_try w files) = Caught e))"
proof (cases "spawn w ''npx'' ([''eslint'', ''--format'', ''json''] @ files) True")
  case (Inl e)
  then show ?thesis
    by (simp add: eslint_report_def eslint_try_def spawnEslint_def)
next
  case (Inr child)
  let ?evs = "child None"
  let ?out = "concat (map out_chunk (takeWhile is_data ?evs))"
  have t: "fst (eslint_try w files) =
      (case promise_of (deliver (eslint_on 30000) (?evs @ [TimerFires])) of
         None \<Rightarrow> Hangs
       | Some (Inl eslintError) \<Rightarrow> Caught eslintError
       | Some (Inr res) \<Rightarrow>
           (if trim (stdout res) \<noteq> []
            then (case JSON_parse w (stdout res) of
                    Inl parseError \<Rightarrow> Caught parseError
                  | Inr linterReport \<Rightarrow> Returned linterReport)
            else Returned (JArr [])))"
    using Inr
    by (simp add: eslint_try_def spawnEslint_def split: option.splits sum.splits)
  have r: "eslint_report w files =
      (case dropWhile is_data ?evs of
         CloseEvent code # rest \<Rightarrow>
           (let out = ?out
            in if trim out = [] then Some (JArr [])
               else (case JSON_parse w out of Inr report \<Rightarrow> Some report | Inl e \<Rightarrow> None))
       | _ \<Rightarrow> None)"
    unfolding eslint_report_def Inr sum.case ..
  show ?thesis
  proof (cases "dropWhile is_data ?evs")
    case Nil
    show ?thesis unfolding t r eslint_promise Nil by simp
  next
    case (Cons x rest)
    show ?thesis
    proof (cases x)
      case (StdoutData d)
      show ?thesis unfolding t r eslint_promise Cons StdoutData by simp
    next
      case (StderrData d)
      show ?thesis unfolding t r eslint_promise Cons StderrData by simp
    next
      case (ErrorEvent error)
      show ?thesis unfolding t r eslint_promise Cons ErrorEvent by simp
    next
      case (CloseEvent code)
      show ?thesis unfolding t r eslint_promise Cons CloseEvent
        by (cases "JSON_parse w ?out") (simp_all add: Let_def)
    next
      case TimerFires
      show ?thesis unfolding t r eslint_promise Cons TimerFires by simp
    qed
  qed
qed

lemma jshint_loop_runs:
  "jshint_runs w files \<Longrightarrow> \<exists>rs. fst (jshint_loop w results files) = Inr rs"
proof (induction files arbitrary: results)
  case Nil
  show ?case by simp
next
  case (Cons f files)
  from Cons.prems obtain out err where e: "exec w (''jshint '' @ f) = Inr (out, err)"
    and rest: "jshint_runs w files"
    by (cases "exec w (''jshint '' @ f)") (auto simp add: jshint_runs_def)
  from Cons.IH[OF rest, of "if err \<noteq> [] then results @ parseJshintOutput err f else results"]
  show ?case using e by (auto split: prod.splits)
qed

lemma jshint_loop_fails:
  "\<not> jshint_runs w files \<Longrightarrow> \<exists>e. fst (jshint_loop w results files) = Inl e"
proof (induction files arbitrary: results)
  case Nil
  then show ?case by (simp add: jshint_runs_def)
next
  case (Cons f files)
  show ?case
  proof (cases "exec w (''jshint '' @ f)")
    case (Inl e)
    then show ?thesis by simp
  next
    case (Inr r)
    obtain out err where r: "r = (out, err)" by (cases r)
    from Cons.prems Inr have "\<not> jshint_runs w files" by (simp add: jshint_runs_def)
    from Cons.IH[OF this, of "if err \<noteq> [] then results @ parseJshintOutput err f else results"]
    show ?thesis using Inr r by (auto split: prod.splits)
  qed
qed

lemma jshint_try_runs:
  "(jshint_runs w files \<longrightarrow>
      fst (jshint_try w files) = Returned (findings_json (jshint_findings w files)))
   \<and> (\<not> jshint_runs w files \<longrightarrow> (\<exists>e. fst (jshint_try w files) = Caught e))"
proof (intro conjI impI)
  assume "jshint_runs w files"
  from jshint_loop_runs[OF this, of "[]"] obtain rs where
    rs: "fst (jshint_loop w [] files) = Inr rs" ..
  from jshint_loop_findings[OF rs] have "rs = jshint_findings w files" by simp
  with rs show "fst (jshint_try w files) = Returned (findings_json (jshint_findings w files))"
    by (cases "jshint_loop w [] files") (simp add: jshint_try_def)
next
  assume "\<not> jshint_runs w files"
  from jshint_loop_fails[OF this, of "[]"] obtain e where
    "fst (jshint_loop w [] files) = Inl e" ..
  then show "\<exists>e. fst (jshint_try w files) = Caught e"
    by (cases "jshint_loop w [] files") (simp add: jshint_try_def)
qed

lemma parseTypeScriptErrors_empty: "parseTypeScriptErrors [] = []"
  by (simp add: parseTypeScriptErrors_def tsc_issue_def js_match_def tsc_re_def
        run_lengths_def)

lemma tsc_try_report:
  "(tsc_report w = Some r \<longrightarrow>
      fst (tsc_try w) = Returned r \<or> (fst (tsc_try w) = NoReturn \<and> r = JArr []))
   \<and> (tsc_report w = None \<longrightarrow> (\<exists>e. fst (tsc_try w) = Caught e))"
proof (cases "exec w ''npx tsc --noEmit''")
  case (Inl e)
  then show ?thesis by (simp add: tsc_report_def tsc_try_def)
next
  case (Inr p)
  obtain out err where p: "p = (out, err)" by (cases p)
  show ?thesis using Inr p
    by (simp add: tsc_report_def tsc_try_def parseTypeScriptErrors_empty findings_json_def)
qed

lemma selector_refines_analysis:
  "fst (runProjectLinter w files) = Some (analysis_spec w files)"
proof -
  have tail3: "select_spec [(tsc_feasible w files, fst (tsc_try w))] =
      Some (case (if tsc_feasible w files then tsc_report w else None) of
              Some report \<Rightarrow> report | None \<Rightarrow> JArr [])"
  proof (cases "tsc_feasible w files")
    case False
    then show ?thesis by simp
  next
    case True
    show ?thesis
    proof (cases "tsc_report w")
      case None
      with tsc_try_report[of w] obtain e where "fst (tsc_try w) = Caught e" by blast
      with True None show ?thesis by simp
    next
      case (Some r)
      with tsc_try_report[of w r]
      have "fst (tsc_try w) = Returned r \<or> (fst (tsc_try w) = NoReturn \<and> r = JArr [])" by simp
      with True Some show ?thesis by auto
    qed
  qed
  have tail2: "select_spec [(jshint_feasible w, fst (jshint_try w files)),
                            (tsc_feasible w files, fst (tsc_try w))] =
      Some (if jshint_feasible w \<and> jshint_runs w files
            then findings_json (jshint_findings w files)
            else (case (if tsc_feasible w files then tsc_report w else None) of
                    Some report \<Rightarrow> report | None \<Rightarrow> JArr []))"
  proof (cases "jshint_feasible w")
    case False
    with tail3 show ?thesis by simp
  next
    case True
    show ?thesis
    proof (cases "jshint_runs w files")
      case True
      with jshint_try_runs[of w files] \<open>jshint_feasible w\<close> show ?thesis by simp
    next
      case False
      with jshint_try_runs[of w files] obtain e where "fst (jshint_try w files) = Caught e"
        by blast
      with False \<open>jshint_feasible w\<close> tail3 show ?thesis by simp
    qed
  qed
  show ?thesis
  proof (cases "eslint_feasible w")
    case False
    with tail2 show ?thesis by (simp add: selector_refines_spec analysis_spec_def)
  next
    case True
    show ?thesis
    proof (cases "eslint_report w files")
      case None
      with eslint_try_report[of w files] obtain e where "fst (eslint_try w files) = Caught e"
        by blast
      with True None tail2 show ?thesis by (simp add: selector_refines_spec analysis_spec_def)
    next
      case (Some r)
      with eslint_try_report[of w files r] have "fst (eslint_try w files) = Returned r" by simp
      with True Some show ?thesis by (simp add: selector_refines_spec analysis_spec_def)
    qed
  qed
qed

lemma eslint_try_log:
  "snd (eslint_try w files) =
     [Spawn ''npx'' ([''eslint'', ''--format'', ''json''] @ files) True None]"
  by (simp add: eslint_try_def spawnEslint_def split: sum.splits option.splits)

lemma jshint_loop_log:
  "jshint_runs w files \<Longrightarrow>
     snd (jshint_loop w results files) = map (\<lambda>f. Exec (''jshint '' @ f)) files"
proof (induction files arbitrary: results)
  case Nil
  show ?case by simp
next
  case (Cons f files)
  from Cons.prems obtain out err where e: "exec w (''jshint '' @ f) = Inr (out, err)"
    and rest: "jshint_runs w files"
    by (cases "exec w (''jshint '' @ f)") (auto simp add: jshint_runs_def)
  from Cons.IH[OF rest, of "if err \<noteq> [] then results @ parseJshintOutput err f else results"]
  show ?case using e by (auto split: prod.splits)
qed

lemma jshint_try_log:
  "jshint_runs w files \<Longrightarrow> snd (jshint_try w files) = map (\<lambda>f. Exec (''jshint '' @ f)) files"
  using jshint_loop_log[of w files "[]"]
  by (cases "jshint_loop w [] files"; cases "fst (jshint_loop w [] files)")
     (simp_all add: jshint_try_def)

lemma then_try_snd:
  "snd (then_try a b) =
     (case fst a of Returned v \<Rightarrow> snd a | Hangs \<Rightarrow> snd a | Caught e \<Rightarrow> snd a @ snd b
      | NoReturn \<Rightarrow> snd a @ snd b)"
  by (cases a; cases "fst a") (simp_all add: then_try_def)

lemma runProjectLinter_snd:
  "snd (runProjectLinter w files) =
     snd (then_try (eslint_step w files) (then_try (jshint_step w files) (tsc_step w files)))"
  by (cases "then_try (eslint_step w files) (then_try (jshint_step w files) (tsc_step w files))";
      cases "fst (then_try (eslint_step w files)
                  (then_try (jshint_step w files) (tsc_step w files)))")
     (simp_all add: runProjectLinter_def)

lemma eslint_step_snd:
  "snd (eslint_step w files) =
     snd (checkFileExists w eslint_configs) @
     (if eslint_feasible w then snd (eslint_try w files) else [])"
  using checkFileExists_fst[of w eslint_configs]
  by (cases "checkFileExists w eslint_configs"; cases "eslint_try w files")
     (simp add: eslint_step_def eslint_feasible_def)

lemma jshint_step_snd:
  "snd (jshint_step w files) =
     Exec ''which jshint'' # (if jshint_feasible w then snd (jshint_try w files) else [])"
  using checkCommandExists_fst[of w "''jshint''"]
  by (cases "exec w ''which jshint''"; cases "jshint_try w files")
     (simp_all add: jshint_step_def jshint_feasible_def checkCommandExists_def)

lemma selector_log_eslint:
  assumes "eslint_feasible w" "eslint_report w files = Some r"
  shows "snd (runProjectLinter w files) =
     snd (checkFileExists w eslint_configs) @
     [Spawn ''npx'' ([''eslint'', ''--format'', ''json''] @ files) True None]"
proof -
  from eslint_try_report[of w files r] assms(2)
  have "fst (eslint_try w files) = Returned r" by simp
  with assms(1) have "fst (eslint_step w files) = Returned r" by (simp add: eslint_step_fst)
  then show ?thesis
    unfolding runProjectLinter_snd then_try_snd eslint_step_snd eslint_try_log
    using assms(1) by simp
qed

lemma selector_log_jshint:
  assumes "eslint_feasible w" "eslint_report w files = None"
    "jshint_feasible w" "jshint_runs w files"
  shows "snd (runProjectLinter w files) =
     snd (checkFileExists w eslint_configs) @
     [Spawn ''npx'' ([''eslint'', ''--format'', ''json''] @ files) True None] @
     Exec ''which jshint'' # map (\<lambda>f. Exec (''jshint '' @ f)) files"
proof -
  from eslint_try_report[of w files] assms(2) obtain e where
    "fst (eslint_try w files) = Caught e" by blast
  with assms(1) have e: "fst (eslint_step w files) = Caught e" by (simp add: eslint_step_fst)
  from jshint_try_runs[of w files] assms(3,4)
  have j: "fst (jshint_step w files) = Returned (findings_json (jshint_findings w files))"
    by (simp add: jshint_step_fst)
  show ?thesis
    unfolding runProjectLinter_snd then_try_snd eslint_step_snd eslint_try_log jshint_step_snd
      jshint_try_log[OF assms(4)] e j
    using assms(1,3) by simp
qed


lemma checkFileExists_all_probed:
  "\<not> list_ex (\<lambda>f. \<not> isl (exec w (''test -f '' @ f))) fs \<Longrightarrow>
     snd (checkFileExists w fs) = map (\<lambda>f. Exec (''test -f '' @ f)) fs"
  by (induction fs) (auto split: sum.splits prod.splits)

lemma checkFileExists_one: "snd (checkFileExists w [f]) = [Exec (''test -f '' @ f)]"
  by (simp split: sum.splits)

lemma tsc_step_snd:
  "snd (tsc_step w files) =
     Exec ''test -f tsconfig.json'' # (if tsc_feasible w files then snd (tsc_try w) else [])"
  using checkFileExists_fst[of w "[''tsconfig.json'']"] checkFileExists_one[of w "''tsconfig.json''"]
  by (cases "checkFileExists w [''tsconfig.json'']"; cases "tsc_try w")
     (simp add: tsc_step_def tsc_feasible_def)

lemma selector_log_none:
  assumes "\<not> eslint_feasible w" "\<not> jshint_feasible w" "\<not> tsc_feasible w files"
  shows "snd (runProjectLinter w files) =
     [Exec ''test -f eslint.config.js'', Exec ''test -f .eslintrc.js'',
      Exec ''test -f .eslintrc.json'', Exec ''test -f .eslintrc.yml'',
      Exec ''test -f .eslintrc.yaml'', Exec ''test -f .eslintrc'',
      Exec ''which jshint'', Exec ''test -f tsconfig.json'']"
proof -
  have p: "snd (checkFileExists w eslint_configs) =
      map (\<lambda>f. Exec (''test -f '' @ f)) eslint_configs"
    using assms(1) unfolding eslint_feasible_def by (rule checkFileExists_all_probed)
  have e: "fst (eslint_step w files) = NoReturn"
    using assms(1) by (simp add: eslint_step_fst)
  have j: "fst (jshint_step w files) = NoReturn"
    using assms(2) by (simp add: jshint_step_fst)
  show ?thesis
    unfolding runProjectLinter_snd then_try_snd eslint_step_snd jshint_step_snd tsc_step_snd
      e j p
    using assms by (simp add: eslint_configs_def)
qed


section \<open>The example environments evaluated\<close>

lemma bad_line_parsed:
  "parseJshintOutput ''stdin: line 1, col 2, Bad'' ''a.js'' =
     [\<lparr> filePath = ''a.js'', line = 1, column = 2, message = ''Bad'',
        severity = ''warning'', rule = ''jshint'', source = ''jshint'' \<rparr>]"
  by code_simp

lemma broken_eslint_feasible: "eslint_feasible broken_eslint \<and> jshint_feasible broken_eslint"
  by (simp add: eslint_feasible_def jshint_feasible_def eslint_configs_def broken_eslint_def
        jshint_only_def no_process_def)

lemma no_process_infeasible:
  "\<not> eslint_feasible no_process \<and> \<not> jshint_feasible no_process \<and>
   \<not> tsc_feasible no_process [''a.ts'']"
  by (simp add: eslint_feasible_def jshint_feasible_def tsc_feasible_def eslint_configs_def
        no_process_def)

lemma crashed_eslint_feasible:
  "eslint_feasible crashed_eslint \<and> jshint_feasible crashed_eslint
   \<and> jshint_runs crashed_eslint [''a.js'']"
  by (simp add: eslint_feasible_def jshint_feasible_def jshint_runs_def eslint_configs_def
        crashed_eslint_def broken_eslint_def jshint_only_def no_process_def)

lemma crashed_eslint_report: "eslint_report crashed_eslint [''a.js''] = Some (JArr [])"
  by (simp add: eslint_report_def crashed_eslint_def broken_eslint_def jshint_only_def
        no_process_def trim_eq_Nil)

lemma crashed_eslint_jshint:
  "jshint_findings crashed_eslint [''a.js''] =
     [\<lparr> filePath = ''a.js'', line = 1, column = 2, message = ''Bad'',
        severity = ''warning'', rule = ''jshint'', source = ''jshint'' \<rparr>]"
  by (simp add: jshint_findings_def crashed_eslint_def broken_eslint_def jshint_only_def
        no_process_def bad_line_parsed)

lemma broken_eslint_report:
  "eslint_report broken_eslint [''a.js''] = None \<and> jshint_runs broken_eslint [''a.js'']"
  by (simp add: eslint_report_def jshint_runs_def broken_eslint_def jshint_only_def
        no_process_def)

lemma broken_eslint_findings:
  "jshint_findings broken_eslint [''a.js''] =
     [\<lparr> filePath = ''a.js'', line = 1, column = 2, message = ''Bad'',
        severity = ''warning'', rule = ''jshint'', source = ''jshint'' \<rparr>]"
  by (simp add: jshint_findings_def broken_eslint_def jshint_only_def
        no_process_def bad_line_parsed)

lemma crashed_eslint_probes:
  "checkFileExists crashed_eslint eslint_configs =
     (True, [Exec ''test -f eslint.config.js'', Exec ''test -f .eslintrc.js'',
             Exec ''test -f .eslintrc.json''])"
  by (simp add: eslint_configs_def crashed_eslint_def broken_eslint_def jshint_only_def
        no_process_def)

lemma crashed_eslint_child:
  "\<exists>child. spawn crashed_eslint ''npx'' [''eslint'', ''--format'', ''json'', ''a.js''] True =
             Inr child
           \<and> child None = [StderrData ''Oops'', CloseEvent (Some 2)]"
  by (simp add: crashed_eslint_def)

lemma crashed_eslint_jshint_try:
  "fst (jshint_try crashed_eslint [''a.js'']) =
     Returned (findings_json
       [\<lparr> filePath = ''a.js'', line = 1, column = 2, message = ''Bad'',
          severity = ''warning'', rule = ''jshint'', source = ''jshint'' \<rparr>])"
  using jshint_try_runs[of crashed_eslint "[''a.js'']"] crashed_eslint_feasible
  by (simp add: crashed_eslint_jshint)

lemma crashed_eslint_result:
  "runProjectLinter crashed_eslint [''a.js''] =
     (Some (JArr []),
      [Exec ''test -f eslint.config.js'', Exec ''test -f .eslintrc.js'',
       Exec ''test -f .eslintrc.json'',
       Spawn ''npx'' [''eslint'', ''--format'', ''json'', ''a.js''] True None])"
proof -
  have "fst (runProjectLinter crashed_eslint [''a.js'']) = Some (JArr [])"
    using crashed_eslint_feasible
    by (simp add: selector_refines_analysis analysis_spec_def crashed_eslint_report)
  moreover have "snd (runProjectLinter crashed_eslint [''a.js'']) =
      [Exec ''test -f eslint.config.js'', Exec ''test -f .eslintrc.js'',
       Exec ''test -f .eslintrc.json'',
       Spawn ''npx'' [''eslint'', ''--format'', ''json'', ''a.js''] True None]"
    using selector_log_eslint[of crashed_eslint "[''a.js'']" "JArr []"] crashed_eslint_feasible
    by (simp add: crashed_eslint_report crashed_eslint_probes)
  ultimately show ?thesis by (simp add: prod_eq_iff)
qed

lemma eslint_reports_facts:
  "eslint_feasible eslint_reports \<and> eslint_report eslint_reports [''a.js''] = Some (JArr [JNum ''1''])"
  by (simp add: eslint_feasible_def eslint_report_def eslint_configs_def eslint_reports_def
        broken_eslint_def jshint_only_def no_process_def trim_def is_ws_def)

lemma eslint_reports_probes:
  "snd (checkFileExists eslint_reports eslint_configs) =
     [Exec ''test -f eslint.config.js'', Exec ''test -f .eslintrc.js'',
      Exec ''test -f .eslintrc.json'']"
  by (simp add: eslint_configs_def eslint_reports_def broken_eslint_def jshint_only_def
        no_process_def)

lemma broken_eslint_probes:
  "snd (checkFileExists broken_eslint eslint_configs) =
     [Exec ''test -f eslint.config.js'', Exec ''test -f .eslintrc.js'',
      Exec ''test -f .eslintrc.json'']"
  by (simp add: eslint_configs_def broken_eslint_def jshint_only_def no_process_def)

lemma eslint_alone_facts:
  "eslint_feasible eslint_alone \<and> eslint_report eslint_alone [''a.ts''] = None
   \<and> \<not> jshint_feasible eslint_alone \<and> \<not> tsc_feasible eslint_alone [''a.ts'']"
  by (simp add: eslint_feasible_def eslint_report_def eslint_configs_def jshint_feasible_def
        tsc_feasible_def eslint_alone_def no_process_def)

lemma nothing_changed_listing:
  "exec nothing_changed git_names_cmd = Inr (''README.md'' @ [NL], [])"
  by (simp add: nothing_changed_def no_process_def)

lemma nothing_changed_files: "changed_files (''README.md'' @ [NL]) = []"
  by code_simp

lemma one_changed_listing:
  "exec one_changed git_names_cmd = Inr (''a.ts'' @ [NL], [])"
  by (simp add: one_changed_def no_process_def)

lemma one_changed_files: "changed_files (''a.ts'' @ [NL]) = [''a.ts'']"
  by code_simp

lemma one_changed_diff:
  "exec one_changed ''git diff HEAD'' = Inr (''--- fixture diff ---'', [])"
  by (simp add: one_changed_def no_process_def git_names_cmd_def)

lemma one_changed_infeasible:
  "\<not> eslint_feasible one_changed \<and> \<not> jshint_feasible one_changed \<and>
   \<not> tsc_feasible one_changed [''a.ts'']"
  by (simp add: eslint_feasible_def jshint_feasible_def tsc_feasible_def eslint_configs_def
        one_changed_def no_process_def git_names_cmd_def)

lemma one_changed_no_findings: "fst (runProjectLinter one_changed [''a.ts'']) = Some (JArr [])"
  using one_changed_infeasible by (simp add: selector_refines_spec)

lemma one_changed_payload:
  "fst (runHybridAnalysis one_changed) =
     Some (Inr (JSON_stringify
                  (JObj [(''diff'', JStr ''--- fixture diff ---''), (''linterReport'', JArr [])])))"
proof -
  have ne: "changed_files (''a.ts'' @ [NL]) \<noteq> []"
    unfolding one_changed_files by simp
  show ?thesis
    unfolding rha_changes[OF one_changed_listing ne] one_changed_files
      one_changed_no_findings one_changed_diff
    by simp
qed


section \<open>The claims about the parsers\<close>

text \<open>
  Claim C9. The JSHint parser turns the fixture line
  \<open>src/app.js: line 10, col 3, Missing semicolon\<close>, parsed for \<open>src/app.js\<close>, into
  exactly one Finding with line 10, column 3, message \<open>Missing semicolon\<close>, severity
  \<open>warning\<close> and source \<open>jshint\<close> (the object also carries \<open>rule: 'jshint'\<close>).
  Every Finding it produces has severity \<open>warning\<close> and source \<open>jshint\<close>. A line that
  is not of the form \<open><file>: line <n>, col <n>, <message>\<close> yields no Finding, and
  the parser, a total function, raises nothing: the Findings are those of the lines of
  that form, one for each, in order.
\<close>
theorem jshint_parser_fixture_and_shape:
  "parseJshintOutput ''src/app.js: line 10, col 3, Missing semicolon'' ''src/app.js'' =
     [\<lparr> filePath = ''src/app.js'', line = 10, column = 3, message = ''Missing semicolon'',
        severity = ''warning'', rule = ''jshint'', source = ''jshint'' \<rparr>]
   \<and> (\<forall>f\<in>set (parseJshintOutput output fp). severity f = ''warning'' \<and> source f = ''jshint'')
   \<and> (\<forall>ln. \<not> jshint_shape ln \<longrightarrow> jshint_issue fp ln = [])
   \<and> parseJshintOutput output fp =
       concat (map (jshint_issue fp) (filter jshint_shape (split_nl output)))
   \<and> length (parseJshintOutput output fp) = length (filter jshint_shape (split_nl output))"
proof (intro conjI)
  show "parseJshintOutput ''src/app.js: line 10, col 3, Missing semicolon'' ''src/app.js'' =
     [\<lparr> filePath = ''src/app.js'', line = 10, column = 3, message = ''Missing semicolon'',
        severity = ''warning'', rule = ''jshint'', source = ''jshint'' \<rparr>]"
    by code_simp
  show "\<forall>f\<in>set (parseJshintOutput output fp). severity f = ''warning'' \<and> source f = ''jshint''"
  proof
    fix f assume "f \<in> set (parseJshintOutput output fp)"
    then obtain ln where "f \<in> set (jshint_issue fp ln)"
      unfolding parseJshintOutput_def by auto
    from jshint_issue_fields[OF this]
    show "severity f = ''warning'' \<and> source f = ''jshint''" by simp
  qed
  show "\<forall>ln. \<not> jshint_shape ln \<longrightarrow> jshint_issue fp ln = []"
    using jshint_skips_unshaped by blast
  show "parseJshintOutput output fp =
       concat (map (jshint_issue fp) (filter jshint_shape (split_nl output)))"
    unfolding parseJshintOutput_def
    by (rule concat_map_filter_nonempty[symmetric]) (rule jshint_skips_unshaped)
  show "length (parseJshintOutput output fp) = length (filter jshint_shape (split_nl output))"
    unfolding parseJshintOutput_def
    by (rule length_concat_map_filter) (rule jshint_issue_length)
qed

theorem jshint_parser_fixture_and_shape_witness:
  "severity (hd (parseJshintOutput ''src/app.js: line 10, col 3, Missing semicolon'' ''src/app.js''))
     = ''warning''
   \<and> \<not> jshint_shape ''no diagnostic here''
   \<and> jshint_issue ''src/app.js'' ''no diagnostic here'' = []"
proof -
  have mem: "hd (parseJshintOutput ''src/app.js: line 10, col 3, Missing semicolon'' ''src/app.js'')
      \<in> set (parseJshintOutput ''src/app.js: line 10, col 3, Missing semicolon'' ''src/app.js'')"
    by code_simp
  have ns: "\<not> jshint_shape ''no diagnostic here''"
    unfolding jshint_shape_iff by code_simp
  from jshint_parser_fixture_and_shape
         [of "''src/app.js: line 10, col 3, Missing semicolon''" "''src/app.js''"] mem ns
  show ?thesis by blast
qed

text \<open>
  Claim C8, as stated, fails for the TypeScript parser: the text before the first
  \<open>(\<close> may consist of white space only, and it is trimmed.
\<close>
theorem tsc_finding_empty_filePath:
  "map filePath (parseTypeScriptErrors '' (5,12): error TS2322: Type mismatch'') = [[]]"
  by code_simp

text \<open>
  Claim C8, amended. Every Finding of either parser has a non-empty message. A JSHint
  Finding carries the file-path argument unchanged, and the selector passes an element
  of the change set, which is never empty. The TypeScript parser yields one Finding
  for each line of the form \<open><file>(<line>,<col>): <error|warning> <message>\<close>, in
  order, and the \<open>filePath\<close> of that Finding is the text of its own line before the
  first \<open>(\<close>, trimmed: it is empty exactly when that text is white space only. The
  line \<open>src/app.ts(5,12): error TS2322: Type mismatch\<close> gives the Finding with
  \<open>filePath\<close> \<open>src/app.ts\<close>, line 5, column 12, message \<open>TS2322: Type mismatch\<close> and
  severity \<open>error\<close>.
\<close>
theorem parser_findings_fields:
  "(\<forall>f\<in>set (parseJshintOutput output fp). message f \<noteq> [] \<and> filePath f = fp)
   \<and> (\<forall>file\<in>set (changed_files gitFiles). file \<noteq> [])
   \<and> (\<forall>f\<in>set (parseTypeScriptErrors tscOutput). message f \<noteq> [])
   \<and> map filePath (parseTypeScriptErrors tscOutput) =
       map (\<lambda>ln. trim (takeWhile (\<lambda>x. x \<noteq> CHR ''('') ln))
           (filter tsc_shape (split_nl tscOutput))
   \<and> (trim (takeWhile (\<lambda>x. x \<noteq> CHR ''('') ln) = [] \<longleftrightarrow>
        (\<forall>x\<in>set (takeWhile (\<lambda>x. x \<noteq> CHR ''('') ln). is_ws x))
   \<and> parseTypeScriptErrors ''src/app.ts(5,12): error TS2322: Type mismatch'' =
       [\<lparr> filePath = ''src/app.ts'', line = 5, column = 12,
          message = ''TS2322: Type mismatch'', severity = ''error'',
          rule = ''typescript'', source = ''typescript'' \<rparr>]"
proof (intro conjI ballI)
  fix f assume "f \<in> set (parseJshintOutput output fp)"
  then obtain l where "f \<in> set (jshint_issue fp l)"
    unfolding parseJshintOutput_def by auto
  from jshint_issue_fields[OF this] show "message f \<noteq> []" and "filePath f = fp"
    by simp_all
next
  fix p assume "p \<in> set (changed_files gitFiles)"
  then show "p \<noteq> []" by (rule changed_files_nonempty)
next
  fix f assume "f \<in> set (parseTypeScriptErrors tscOutput)"
  then obtain l where "f \<in> set (tsc_issue l)"
    unfolding parseTypeScriptErrors_def by auto
  from tsc_issue_fields[OF this] show "message f \<noteq> []" by simp
next
  show "map filePath (parseTypeScriptErrors tscOutput) =
       map (\<lambda>ln. trim (takeWhile (\<lambda>x. x \<noteq> CHR ''('') ln))
           (filter tsc_shape (split_nl tscOutput))"
    unfolding parseTypeScriptErrors_def by (rule tsc_filePaths)
  show "trim (takeWhile (\<lambda>x. x \<noteq> CHR ''('') ln) = [] \<longleftrightarrow>
        (\<forall>x\<in>set (takeWhile (\<lambda>x. x \<noteq> CHR ''('') ln). is_ws x)"
    by (rule trim_eq_Nil)
  show "parseTypeScriptErrors ''src/app.ts(5,12): error TS2322: Type mismatch'' =
       [\<lparr> filePath = ''src/app.ts'', line = 5, column = 12,
          message = ''TS2322: Type mismatch'', severity = ''error'',
          rule = ''typescript'', source = ''typescript'' \<rparr>]"
    by code_simp
qed

theorem parser_findings_fields_witness:
  "message (hd (parseJshintOutput ''src/app.js: line 10, col 3, Missing semicolon'' ''src/app.js''))
     \<noteq> []
   \<and> filePath (hd (parseJshintOutput ''src/app.js: line 10, col 3, Missing semicolon'' ''src/app.js''))
     = ''src/app.js''
   \<and> hd (changed_files ''src/app.js'') \<noteq> []
   \<and> message (hd (parseTypeScriptErrors
                    (''error TS5: none'' @ [NL] @ '' lib/a.ts (5,12): error TS2322: Bad''))) \<noteq> []
   \<and> map (\<lambda>ln. trim (takeWhile (\<lambda>x. x \<noteq> CHR ''('') ln))
         (filter tsc_shape
            (split_nl (''error TS5: none'' @ [NL] @ '' lib/a.ts (5,12): error TS2322: Bad'')))
     = [''lib/a.ts'']
   \<and> trim (takeWhile (\<lambda>x. x \<noteq> CHR ''('') ([CHR 0xA0] @ '' (5,12): error TS2322: Bad'')) = []"
proof -
  let ?js = "''src/app.js: line 10, col 3, Missing semicolon''"
  let ?out = "''error TS5: none'' @ [NL] @ '' lib/a.ts (5,12): error TS2322: Bad''"
  let ?blank = "[CHR 0xA0] @ '' (5,12): error TS2322: Bad''"
  have m1: "hd (parseJshintOutput ?js ''src/app.js'') \<in> set (parseJshintOutput ?js ''src/app.js'')"
    by code_simp
  have m2: "hd (changed_files ''src/app.js'') \<in> set (changed_files ''src/app.js'')"
    by code_simp
  have m3: "hd (parseTypeScriptErrors ?out) \<in> set (parseTypeScriptErrors ?out)"
    by code_simp
  have p: "map filePath (parseTypeScriptErrors ?out) = [''lib/a.ts'']"
    by code_simp
  have b: "\<forall>x\<in>set (takeWhile (\<lambda>x. x \<noteq> CHR ''('') ?blank). is_ws x"
    by code_simp
  note all = parser_findings_fields[of ?js "''src/app.js''" "''src/app.js''" ?out ?blank]
  from all have j: "\<forall>f\<in>set (parseJshintOutput ?js ''src/app.js'').
      message f \<noteq> [] \<and> filePath f = ''src/app.js''"
    by (rule conjunct1)
  from all have c: "\<forall>file\<in>set (changed_files ''src/app.js''). file \<noteq> []"
    by (elim conjE)
  from all have t: "\<forall>f\<in>set (parseTypeScriptErrors ?out). message f \<noteq> []"
    by (elim conjE)
  from all have fp: "map filePath (parseTypeScriptErrors ?out) =
       map (\<lambda>ln. trim (takeWhile (\<lambda>x. x \<noteq> CHR ''('') ln)) (filter tsc_shape (split_nl ?out))"
    by (elim conjE)
  from all have tr: "trim (takeWhile (\<lambda>x. x \<noteq> CHR ''('') ?blank) = [] \<longleftrightarrow>
        (\<forall>x\<in>set (takeWhile (\<lambda>x. x \<noteq> CHR ''('') ?blank). is_ws x)"
    by (elim conjE)
  from j m1 have w1: "message (hd (parseJshintOutput ?js ''src/app.js'')) \<noteq> [] \<and>
      filePath (hd (parseJshintOutput ?js ''src/app.js'')) = ''src/app.js''"
    by (rule bspec)
  from c m2 have w2: "hd (changed_files ''src/app.js'') \<noteq> []"
    by (rule bspec)
  from t m3 have w3: "message (hd (parseTypeScriptErrors ?out)) \<noteq> []"
    by (rule bspec)
  from fp[symmetric] p have w4:
    "map (\<lambda>ln. trim (takeWhile (\<lambda>x. x \<noteq> CHR ''('') ln)) (filter tsc_shape (split_nl ?out))
       = [''lib/a.ts'']"
    by (rule trans)
  from tr b have w5: "trim (takeWhile (\<lambda>x. x \<noteq> CHR ''('') ?blank) = []"
    by (rule iffD2)
  from w1 w2 w3 w4 w5 show ?thesis
    by (intro conjI) (elim conjE; assumption)+
qed


section \<open>The claims about the process runners\<close>

text \<open>
  Claim C1, as stated, fails for the ESLint runner: its \<open>'close'\<close> handler ignores the
  exit status, so a run that exits with status 2 resolves with the captured output.
\<close>
theorem eslint_resolves_on_failed_exit:
  "promise_of (deliver (eslint_on 30000) [StderrData ''Oops'', CloseEvent (Some 2)]) =
     Some (Inr \<lparr> stdout = [], stderr = ''Oops'' \<rparr>)"
  by (simp add: deliver_def promise_of_def runner_init_def)

text \<open>
  Claim C1, amended. When \<open>'close'\<close> is the first event that is not an output chunk,
  the Gemini runner resolves with the captured stdout and stderr if the exit status is
  0, writing a warning when stderr has more than white space (\<open>trim\<close> takes the
  no-break space for white space too), and otherwise rejects
  with an error whose message holds the exit status and, when there is any, the
  captured stderr; it resolves in no other way. The ESLint runner resolves with the
  captured output on that \<open>'close'\<close> whatever the exit status.
\<close>
theorem close_settles_by_exit_status:
  "((\<forall>e\<in>set pre. is_data e) \<longrightarrow>
      promise_of (deliver (gemini_on t) (pre @ CloseEvent code # post)) =
        Some (if code = Some 0
              then Inr \<lparr> stdout = concat (map out_chunk pre),
                         stderr = concat (map err_chunk pre) \<rparr>
              else Inl (new_Error (''Gemini CLI exited with code '' @ show_code code @
                         (if concat (map err_chunk pre) \<noteq> []
                          then '': '' @ concat (map err_chunk pre) else []))))
      \<and> warnings (deliver (gemini_on t) (pre @ CloseEvent code # post)) =
          (if code = Some 0 \<and> trim (concat (map err_chunk pre)) \<noteq> []
           then [''Gemini CLI output on stderr: '' @ concat (map err_chunk pre)] else [])
      \<and> promise_of (deliver (eslint_on t) (pre @ CloseEvent code # post)) =
          Some (Inr \<lparr> stdout = concat (map out_chunk pre),
                      stderr = concat (map err_chunk pre) \<rparr>))
   \<and> (promise_of (deliver (gemini_on t) evs) = Some (Inr r) \<longrightarrow>
        (\<exists>pre post. evs = pre @ CloseEvent (Some 0) # post \<and> (\<forall>e\<in>set pre. is_data e)))"
proof (intro conjI impI)
  assume d: "\<forall>e\<in>set pre. is_data e"
  from gemini_close_after_data[OF d, of t code post]
  show "promise_of (deliver (gemini_on t) (pre @ CloseEvent code # post)) =
        Some (if code = Some 0
              then Inr \<lparr> stdout = concat (map out_chunk pre),
                         stderr = concat (map err_chunk pre) \<rparr>
              else Inl (new_Error (''Gemini CLI exited with code '' @ show_code code @
                         (if concat (map err_chunk pre) \<noteq> []
                          then '': '' @ concat (map err_chunk pre) else []))))"
    by (simp add: promise_of_def)
  from gemini_close_after_data[OF d, of t code post]
  show "warnings (deliver (gemini_on t) (pre @ CloseEvent code # post)) =
          (if code = Some 0 \<and> trim (concat (map err_chunk pre)) \<noteq> []
           then [''Gemini CLI output on stderr: '' @ concat (map err_chunk pre)] else [])"
    by simp
  from eslint_close_after_data[OF d, of t code post]
  show "promise_of (deliver (eslint_on t) (pre @ CloseEvent code # post)) =
          Some (Inr \<lparr> stdout = concat (map out_chunk pre),
                      stderr = concat (map err_chunk pre) \<rparr>)"
    by (simp add: promise_of_def)
next
  assume "promise_of (deliver (gemini_on t) evs) = Some (Inr r)"
  then show "\<exists>pre post. evs = pre @ CloseEvent (Some 0) # post \<and> (\<forall>e\<in>set pre. is_data e)"
    unfolding deliver_def
    by (rule gemini_resolves_only_on_clean_close[OF runner_inv_init, rotated])
       (simp add: runner_init_def)
qed

theorem close_settles_by_exit_status_witness:
  "promise_of (deliver (gemini_on 120000) [StdoutData ''{}'', StderrData ''note'', CloseEvent (Some 0)])
     = Some (Inr \<lparr> stdout = ''{}'', stderr = ''note'' \<rparr>)
   \<and> warnings (deliver (gemini_on 120000) [StdoutData ''{}'', StderrData ''note'', CloseEvent (Some 0)])
     = [''Gemini CLI output on stderr: note'']
   \<and> warnings (deliver (gemini_on 120000) [StderrData [CHR 0xA0, CHR 0x0A], CloseEvent (Some 0)])
     = []
   \<and> promise_of (deliver (gemini_on 120000) [StderrData ''boom'', CloseEvent (Some 2), TimerFires])
     = Some (Inl (new_Error ''Gemini CLI exited with code 2: boom''))
   \<and> promise_of (deliver (eslint_on 30000) [StderrData ''boom'', CloseEvent (Some 2), TimerFires])
     = Some (Inr \<lparr> stdout = [], stderr = ''boom'' \<rparr>)"
proof -
  have two: "show_code (Some 2) = ''2''"
    by (simp add: show_code_def show_int_def show_nat.simps)
  have ws: "trim ''note'' \<noteq> []"
    by (simp add: trim_def is_ws_def)
  have nb: "trim [CHR 0xA0, CHR 0x0A] = []"
    by (simp add: trim_def is_ws_def)
  from close_settles_by_exit_status
         [where pre = "[StdoutData ''{}'', StderrData ''note'']" and t = 120000
            and code = "Some 0" and post = "[]"]
       close_settles_by_exit_status
         [where pre = "[StderrData [CHR 0xA0, CHR 0x0A]]" and t = 120000
            and code = "Some 0" and post = "[]"]
       close_settles_by_exit_status
         [where pre = "[StderrData ''boom'']" and t = 120000
            and code = "Some 2" and post = "[TimerFires]"]
       close_settles_by_exit_status
         [where pre = "[StderrData ''boom'']" and t = 30000
            and code = "Some 2" and post = "[TimerFires]"]
       two ws nb
  show ?thesis by simp
qed

text \<open>
  Claim C2. Once the timer, an \<open>'error'\<close> event or a \<open>'close'\<close> event has been
  delivered, in whatever order and however often, the Gemini runner has called exactly
  one of \<open>resolve\<close> and \<open>reject\<close>, once; whatever is delivered afterwards (output
  chunks, a late exit, the timer) adds no call, leaves the promise as it is, sends no
  signal and writes no warning. (The two buffers still grow, and nothing reads them.)
\<close>
theorem settlement_exactly_once:
  assumes "\<exists>e\<in>set evs. \<not> is_data e"
  shows "\<exists>r. calls (deliver (gemini_on t) evs) = [r]
           \<and> calls (deliver (gemini_on t) (evs @ later)) = [r]
           \<and> promise_of (deliver (gemini_on t) (evs @ later)) = Some r
           \<and> kills (deliver (gemini_on t) (evs @ later)) = kills (deliver (gemini_on t) evs)
           \<and> warnings (deliver (gemini_on t) (evs @ later)) =
               warnings (deliver (gemini_on t) evs)"
proof -
  let ?s = "deliver (gemini_on t) evs"
  have inv: "runner_inv ?s"
    unfolding deliver_def by (rule gemini_foldl_inv[OF runner_inv_init])
  have st: "settled ?s"
    unfolding deliver_def by (rule gemini_foldl_settles[OF runner_inv_init assms])
  from settled_one_call[OF inv st] obtain r where r: "calls ?s = [r]" ..
  have app: "deliver (gemini_on t) (evs @ later) = foldl (gemini_on t) ?s later"
    by (simp add: deliver_def)
  from gemini_foldl_late[OF st, of t later] r app show ?thesis
    by (simp add: promise_of_def)
qed

theorem settlement_exactly_once_witness:
  "\<exists>r. calls (deliver (gemini_on 5) [StdoutData ''x'', TimerFires]) = [r]
      \<and> calls (deliver (gemini_on 5)
                 ([StdoutData ''x'', TimerFires] @ [CloseEvent (Some 0), StdoutData ''y''])) = [r]
      \<and> promise_of (deliver (gemini_on 5)
                 ([StdoutData ''x'', TimerFires] @ [CloseEvent (Some 0), StdoutData ''y''])) = Some r
      \<and> kills (deliver (gemini_on 5)
                 ([StdoutData ''x'', TimerFires] @ [CloseEvent (Some 0), StdoutData ''y'']))
          = kills (deliver (gemini_on 5) [StdoutData ''x'', TimerFires])
      \<and> warnings (deliver (gemini_on 5)
                 ([StdoutData ''x'', TimerFires] @ [CloseEvent (Some 0), StdoutData ''y'']))
          = warnings (deliver (gemini_on 5) [StdoutData ''x'', TimerFires])"
  by (rule settlement_exactly_once) simp


section \<open>The claim about the argument transport\<close>

text \<open>
  Claim C4, as stated, fails: an error that has a \<open>code\<close> property other than
  \<open>E2BIG\<close> is never retried, although its message holds the phrase.
\<close>
theorem no_retry_despite_phrase:
  "str_includes (toLowerCase (error_message enoent_too_long)) ''argument list too long''
   \<and> runGeminiPrompt (spawn_fails_with enoent_too_long) ''review this'' 120000 =
       (Some (Inl enoent_too_long), [Spawn ''gemini'' [''review this''] False None])"
proof
  show "str_includes (toLowerCase (error_message enoent_too_long)) ''argument list too long''"
    by (rule phrase_in_enoent_message)
  show "runGeminiPrompt (spawn_fails_with enoent_too_long) ''review this'' 120000 =
       (Some (Inl enoent_too_long), [Spawn ''gemini'' [''review this''] False None])"
    by (simp add: runGeminiPrompt_def spawnGemini_def spawn_fails_with_def no_process_def
          isArgumentTooLongError_def enoent_too_long_def)
qed

text \<open>
  Claim C4, amended. The payload is first passed as the single argument, and that
  invocation always settles. If and only if it fails with an error whose \<open>code\<close> is
  \<open>E2BIG\<close>, or that has no \<open>code\<close>, is an \<open>Error\<close> and has a message containing
  \<open>argument list too long\<close> in any letter case, there is exactly one more invocation,
  with an empty argument vector and the payload, ended by a newline, written to
  standard input (nothing is written when that launch itself throws); its outcome is
  the outcome of the call. Any other failure is passed on unchanged after the one
  invocation, and so is a success.
\<close>
theorem transport_retry:
  "fst (spawnGemini w [prompt] None t) \<noteq> None
   \<and> (fst (spawnGemini w [prompt] None t) = Some (Inl e) \<and> too_long_signature e \<longrightarrow>
        runGeminiPrompt w prompt t =
          (fst (spawnGemini w [] (Some prompt) t),
           [Spawn ''gemini'' [prompt] False None,
            Spawn ''gemini'' [] False
              (if isl (spawn w ''gemini'' [] False) then None
               else Some (if endsWith prompt [NL] then prompt else prompt @ [NL]))]))
   \<and> (fst (spawnGemini w [prompt] None t) = Some (Inl e) \<and> \<not> too_long_signature e \<longrightarrow>
        runGeminiPrompt w prompt t = (Some (Inl e), [Spawn ''gemini'' [prompt] False None]))
   \<and> (fst (spawnGemini w [prompt] None t) = Some (Inr res) \<longrightarrow>
        runGeminiPrompt w prompt t = (Some (Inr res), [Spawn ''gemini'' [prompt] False None]))"
proof (intro conjI impI)
  show "fst (spawnGemini w [prompt] None t) \<noteq> None"
    using spawnGemini_settles[of w "[prompt]" None t] by auto
next
  have log1: "snd (spawnGemini w [prompt] None t) = [Spawn ''gemini'' [prompt] False None]"
    by (simp add: spawnGemini_log stdin_data_def)
  have log2: "snd (spawnGemini w [] (Some prompt) t) =
     [Spawn ''gemini'' [] False
        (if isl (spawn w ''gemini'' [] False) then None
         else Some (if endsWith prompt [NL] then prompt else prompt @ [NL]))]"
    by (simp add: spawnGemini_log stdin_data_def)
  {
    assume a: "fst (spawnGemini w [prompt] None t) = Some (Inl e) \<and> too_long_signature e"
    then have first: "spawnGemini w [prompt] None t =
        (Some (Inl e), [Spawn ''gemini'' [prompt] False None])"
      using log1 by (simp add: prod_eq_iff)
    have second: "spawnGemini w [] (Some prompt) t =
        (fst (spawnGemini w [] (Some prompt) t),
         [Spawn ''gemini'' [] False
            (if isl (spawn w ''gemini'' [] False) then None
             else Some (if endsWith prompt [NL] then prompt else prompt @ [NL]))])"
      using log2 by (simp add: prod_eq_iff)
    from a have "isArgumentTooLongError e" by (simp add: too_long_signature_iff)
    then show "runGeminiPrompt w prompt t =
          (fst (spawnGemini w [] (Some prompt) t),
           [Spawn ''gemini'' [prompt] False None,
            Spawn ''gemini'' [] False
              (if isl (spawn w ''gemini'' [] False) then None
               else Some (if endsWith prompt [NL] then prompt else prompt @ [NL]))])"
      unfolding runGeminiPrompt_def first
      by (subst second) simp
  }
  {
    assume a: "fst (spawnGemini w [prompt] None t) = Some (Inl e) \<and> \<not> too_long_signature e"
    then have first: "spawnGemini w [prompt] None t =
        (Some (Inl e), [Spawn ''gemini'' [prompt] False None])"
      using log1 by (simp add: prod_eq_iff)
    from a have "\<not> isArgumentTooLongError e" by (simp add: too_long_signature_iff)
    then show "runGeminiPrompt w prompt t =
        (Some (Inl e), [Spawn ''gemini'' [prompt] False None])"
      unfolding runGeminiPrompt_def first by simp
  }
  {
    assume a: "fst (spawnGemini w [prompt] None t) = Some (Inr res)"
    then have first: "spawnGemini w [prompt] None t =
        (Some (Inr res), [Spawn ''gemini'' [prompt] False None])"
      using log1 by (simp add: prod_eq_iff)
    show "runGeminiPrompt w prompt t =
        (Some (Inr res), [Spawn ''gemini'' [prompt] False None])"
      unfolding runGeminiPrompt_def first by simp
  }
qed

theorem transport_retry_witness:
  "runGeminiPrompt overflow_env ''review this'' 120000 =
     (Some (Inr \<lparr> stdout = ''{}'', stderr = [] \<rparr>),
      [Spawn ''gemini'' [''review this''] False None,
       Spawn ''gemini'' [] False (Some (''review this'' @ [NL]))])
   \<and> runGeminiPrompt (spawn_fails_with enoent_too_long) ''review this'' 120000 =
     (Some (Inl enoent_too_long), [Spawn ''gemini'' [''review this''] False None])
   \<and> runGeminiPrompt answering_env ''review this'' 120000 =
     (Some (Inr \<lparr> stdout = ''{}'', stderr = [] \<rparr>),
      [Spawn ''gemini'' [''review this''] False None])"
proof -
  have nl: "\<not> endsWith ''review this'' [NL]"
    by (simp add: endsWith_def NL_def suffix_def)
  have f1: "fst (spawnGemini overflow_env [''review this''] None 120000) = Some (Inl e2big)"
    by (simp add: spawnGemini_def overflow_env_def no_process_def)
  have s1: "too_long_signature e2big"
    by (simp add: too_long_signature_def e2big_def)
  have r1: "fst (spawnGemini overflow_env [] (Some ''review this'') 120000) =
      Some (Inr \<lparr> stdout = ''{}'', stderr = [] \<rparr>)"
    by (simp add: spawnGemini_def overflow_env_def no_process_def deliver_def promise_of_def
          runner_init_def trim_def on_timeout_def)
  have i1: "\<not> isl (spawn overflow_env ''gemini'' [] False)"
    by (simp add: overflow_env_def no_process_def)
  have f2: "fst (spawnGemini (spawn_fails_with enoent_too_long) [''review this''] None 120000) =
      Some (Inl enoent_too_long)"
    by (simp add: spawnGemini_def spawn_fails_with_def no_process_def)
  have s2: "\<not> too_long_signature enoent_too_long"
    by (simp add: too_long_signature_def enoent_too_long_def)
  have f3: "fst (spawnGemini answering_env [''review this''] None 120000) =
      Some (Inr \<lparr> stdout = ''{}'', stderr = [] \<rparr>)"
    by (simp add: spawnGemini_def answering_env_def no_process_def deliver_def promise_of_def
          runner_init_def trim_def on_timeout_def)
  from transport_retry[where w = overflow_env and prompt = "''review this''" and t = 120000
                        and e = e2big]
       transport_retry[where w = "spawn_fails_with enoent_too_long"
                        and prompt = "''review this''" and t = 120000 and e = enoent_too_long]
       transport_retry[where w = answering_env and prompt = "''review this''" and t = 120000
                        and res = "\<lparr> stdout = ''{}'', stderr = [] \<rparr>"]
       nl f1 s1 r1 i1 f2 s2 f3
  show ?thesis by simp
qed


section \<open>The claims about the change set and the orchestrator\<close>

text \<open>
  Claim C6. The change set is the sequence of the lines of the listing whose extension
  is \<open>.js\<close>, \<open>.ts\<close>, \<open>.tsx\<close> or \<open>.vue\<close>, in the order of the listing; every
  path it keeps is non-blank, a line with any other extension is dropped. The listing
  is the output of \<open>git diff HEAD --name-only --diff-filter=AM\<close>, the first command of
  every run: it names added and modified files only, so a deleted file is on no line
  and is in no change set.
\<close>
theorem change_set_filter:
  "changed_files gitFiles =
     filter (\<lambda>p. extension p \<in> set recognized_extensions) (split_nl gitFiles)
   \<and> (\<forall>p\<in>set (changed_files gitFiles). trim p \<noteq> [])
   \<and> (\<exists>rest. snd (runHybridAnalysis w) =
          Exec ''git diff HEAD --name-only --diff-filter=AM'' # rest)"
proof (intro conjI ballI)
  show "changed_files gitFiles =
     filter (\<lambda>p. extension p \<in> set recognized_extensions) (split_nl gitFiles)"
    by (rule changed_files_by_extension)
  show "\<And>p. p \<in> set (changed_files gitFiles) \<Longrightarrow> trim p \<noteq> []"
    by (rule changed_files_nonblank)
  show "\<exists>rest. snd (runHybridAnalysis w) =
          Exec ''git diff HEAD --name-only --diff-filter=AM'' # rest"
    using runHybridAnalysis_first_command[of w] unfolding git_names_cmd_def .
qed

theorem change_set_filter_witness:
  "filter (\<lambda>p. extension p \<in> set recognized_extensions)
      (split_nl (''src/a.ts'' @ [NL] @ ''README.md'' @ [NL] @ ''ui/App.vue'' @ [NL]))
     = [''src/a.ts'', ''ui/App.vue'']
   \<and> trim (hd (changed_files (''src/a.ts'' @ [NL] @ ''README.md'' @ [NL] @ ''ui/App.vue'' @ [NL])))
       \<noteq> []"
proof -
  have ev: "changed_files (''src/a.ts'' @ [NL] @ ''README.md'' @ [NL] @ ''ui/App.vue'' @ [NL])
      = [''src/a.ts'', ''ui/App.vue'']"
    by code_simp
  have mem: "hd (changed_files (''src/a.ts'' @ [NL] @ ''README.md'' @ [NL] @ ''ui/App.vue'' @ [NL]))
      \<in> set (changed_files (''src/a.ts'' @ [NL] @ ''README.md'' @ [NL] @ ''ui/App.vue'' @ [NL]))"
    unfolding ev by simp
  from change_set_filter
         [of "''src/a.ts'' @ [NL] @ ''README.md'' @ [NL] @ ''ui/App.vue'' @ [NL]" no_process]
       ev mem
  show ?thesis by metis
qed


section \<open>The claim about the analyzer selector\<close>

text \<open>
  Claim C3, as stated, fails: an ESLint invocation that fails by its exit status is not
  passed over. Here an ESLint configuration exists, ESLint writes to standard error
  only and exits with status 2, and JSHint is on the path and has a finding for the
  changed file. The selector returns the empty sequence, and the processes it starts
  are the probes for a configuration file and ESLint: JSHint is never run.
\<close>
theorem eslint_exit_status_no_fallthrough:
  "eslint_feasible crashed_eslint \<and> jshint_feasible crashed_eslint
   \<and> (\<exists>child. spawn crashed_eslint ''npx'' [''eslint'', ''--format'', ''json'', ''a.js''] True =
                Inr child
              \<and> child None = [StderrData ''Oops'', CloseEvent (Some 2)])
   \<and> fst (jshint_try crashed_eslint [''a.js'']) =
       Returned (findings_json
         [\<lparr> filePath = ''a.js'', line = 1, column = 2, message = ''Bad'',
            severity = ''warning'', rule = ''jshint'', source = ''jshint'' \<rparr>])
   \<and> runProjectLinter crashed_eslint [''a.js''] =
       (Some (JArr []),
        [Exec ''test -f eslint.config.js'', Exec ''test -f .eslintrc.js'',
         Exec ''test -f .eslintrc.json'',
         Spawn ''npx'' [''eslint'', ''--format'', ''json'', ''a.js''] True None])"
  using crashed_eslint_feasible crashed_eslint_child crashed_eslint_jshint_try
    crashed_eslint_result
  by simp

text \<open>
  Claim C3, amended. The result of the selector is that of the selection
  \<open>analysis_spec\<close>: the report of ESLint if a configuration file exists and ESLint
  does not fail, else the findings of JSHint if it is on the path and runs on every
  changed file, else the diagnostics of the TypeScript compiler if \<open>tsconfig.json\<close>
  exists, a changed file ends in \<open>.ts\<close> or \<open>.tsx\<close> and the compiler runs, else the
  empty sequence; the selector always returns. ESLint fails when its launch throws,
  on an \<open>'error'\<close> event, on the timeout and when its output is not JSON; its exit
  status is not looked at. The strategy that gives the result is used alone: when
  ESLint reports, the processes of the run are the configuration probes and ESLint;
  when ESLint fails and JSHint is feasible and runs, the result is what JSHint alone
  reports for the changed files, and the run ends with the JSHint processes. With no
  feasible strategy, or with every feasible one failing, the result is the empty
  sequence; with no feasible strategy the processes of the run are the probes alone,
  for the six configuration files, for \<open>jshint\<close> and for \<open>tsconfig.json\<close>.
\<close>
theorem selector_priority_and_fallthrough:
  "fst (runProjectLinter w files) = Some (analysis_spec w files)
   \<and> (eslint_feasible w \<and> eslint_report w files = Some r \<longrightarrow>
        runProjectLinter w files =
          (Some r,
           snd (checkFileExists w eslint_configs) @
           [Spawn ''npx'' ([''eslint'', ''--format'', ''json''] @ files) True None]))
   \<and> (eslint_feasible w \<and> eslint_report w files = None \<and>
       jshint_feasible w \<and> jshint_runs w files \<longrightarrow>
        runProjectLinter w files =
          (Some (findings_json (jshint_findings w files)),
           snd (checkFileExists w eslint_configs) @
           [Spawn ''npx'' ([''eslint'', ''--format'', ''json''] @ files) True None] @
           Exec ''which jshint'' # map (\<lambda>f. Exec (''jshint '' @ f)) files))
   \<and> (\<not> eslint_feasible w \<and> \<not> jshint_feasible w \<and> \<not> tsc_feasible w files \<longrightarrow>
        runProjectLinter w files =
          (Some (JArr []),
           [Exec ''test -f eslint.config.js'', Exec ''test -f .eslintrc.js'',
            Exec ''test -f .eslintrc.json'', Exec ''test -f .eslintrc.yml'',
            Exec ''test -f .eslintrc.yaml'', Exec ''test -f .eslintrc'',
            Exec ''which jshint'', Exec ''test -f tsconfig.json'']))
   \<and> ((eslint_feasible w \<longrightarrow> eslint_report w files = None) \<and>
       (jshint_feasible w \<longrightarrow> \<not> jshint_runs w files) \<and>
       (tsc_feasible w files \<longrightarrow> tsc_report w = None) \<longrightarrow>
        fst (runProjectLinter w files) = Some (JArr []))"
proof (intro conjI impI)
  show "fst (runProjectLinter w files) = Some (analysis_spec w files)"
    by (rule selector_refines_analysis)
next
  assume a: "eslint_feasible w \<and> eslint_report w files = Some r"
  then have "fst (runProjectLinter w files) = Some r"
    by (simp add: selector_refines_analysis analysis_spec_def)
  moreover from a have "snd (runProjectLinter w files) =
      snd (checkFileExists w eslint_configs) @
      [Spawn ''npx'' ([''eslint'', ''--format'', ''json''] @ files) True None]"
    by (simp only: selector_log_eslint)
  ultimately show "runProjectLinter w files =
          (Some r,
           snd (checkFileExists w eslint_configs) @
           [Spawn ''npx'' ([''eslint'', ''--format'', ''json''] @ files) True None])"
    by (simp only: prod_eq_iff fst_conv snd_conv simp_thms)
next
  assume a: "eslint_feasible w \<and> eslint_report w files = None \<and>
       jshint_feasible w \<and> jshint_runs w files"
  then have "fst (runProjectLinter w files) = Some (findings_json (jshint_findings w files))"
    by (simp add: selector_refines_analysis analysis_spec_def)
  moreover from a have "snd (runProjectLinter w files) =
      snd (checkFileExists w eslint_configs) @
      [Spawn ''npx'' ([''eslint'', ''--format'', ''json''] @ files) True None] @
      Exec ''which jshint'' # map (\<lambda>f. Exec (''jshint '' @ f)) files"
    by (simp only: selector_log_jshint)
  ultimately show "runProjectLinter w files =
          (Some (findings_json (jshint_findings w files)),
           snd (checkFileExists w eslint_configs) @
           [Spawn ''npx'' ([''eslint'', ''--format'', ''json''] @ files) True None] @
           Exec ''which jshint'' # map (\<lambda>f. Exec (''jshint '' @ f)) files)"
    by (simp only: prod_eq_iff fst_conv snd_conv simp_thms)
next
  assume a: "\<not> eslint_feasible w \<and> \<not> jshint_feasible w \<and> \<not> tsc_feasible w files"
  then have "fst (runProjectLinter w files) = Some (JArr [])"
    by (simp add: selector_refines_analysis analysis_spec_def)
  moreover from a have "snd (runProjectLinter w files) =
           [Exec ''test -f eslint.config.js'', Exec ''test -f .eslintrc.js'',
            Exec ''test -f .eslintrc.json'', Exec ''test -f .eslintrc.yml'',
            Exec ''test -f .eslintrc.yaml'', Exec ''test -f .eslintrc'',
            Exec ''which jshint'', Exec ''test -f tsconfig.json'']"
    by (intro selector_log_none) simp_all
  ultimately show "runProjectLinter w files =
          (Some (JArr []),
           [Exec ''test -f eslint.config.js'', Exec ''test -f .eslintrc.js'',
            Exec ''test -f .eslintrc.json'', Exec ''test -f .eslintrc.yml'',
            Exec ''test -f .eslintrc.yaml'', Exec ''test -f .eslintrc'',
            Exec ''which jshint'', Exec ''test -f tsconfig.json''])"
    by (simp only: prod_eq_iff fst_conv snd_conv simp_thms)
next
  assume a: "(eslint_feasible w \<longrightarrow> eslint_report w files = None) \<and>
       (jshint_feasible w \<longrightarrow> \<not> jshint_runs w files) \<and>
       (tsc_feasible w files \<longrightarrow> tsc_report w = None)"
  then have "analysis_spec w files = JArr []"
    by (cases "eslint_feasible w"; cases "jshint_feasible w"; cases "tsc_feasible w files")
       (simp_all add: analysis_spec_def)
  then show "fst (runProjectLinter w files) = Some (JArr [])"
    by (simp add: selector_refines_analysis)
qed

theorem selector_priority_and_fallthrough_witness:
  "runProjectLinter eslint_reports [''a.js''] =
     (Some (JArr [JNum ''1'']),
      [Exec ''test -f eslint.config.js'', Exec ''test -f .eslintrc.js'',
       Exec ''test -f .eslintrc.json'',
       Spawn ''npx'' [''eslint'', ''--format'', ''json'', ''a.js''] True None])
   \<and> runProjectLinter broken_eslint [''a.js''] =
     (Some (findings_json
        [\<lparr> filePath = ''a.js'', line = 1, column = 2, message = ''Bad'',
           severity = ''warning'', rule = ''jshint'', source = ''jshint'' \<rparr>]),
      [Exec ''test -f eslint.config.js'', Exec ''test -f .eslintrc.js'',
       Exec ''test -f .eslintrc.json'',
       Spawn ''npx'' [''eslint'', ''--format'', ''json'', ''a.js''] True None,
       Exec ''which jshint'', Exec ''jshint a.js''])
   \<and> runProjectLinter no_process [''a.ts''] =
          (Some (JArr []),
           [Exec ''test -f eslint.config.js'', Exec ''test -f .eslintrc.js'',
            Exec ''test -f .eslintrc.json'', Exec ''test -f .eslintrc.yml'',
            Exec ''test -f .eslintrc.yaml'', Exec ''test -f .eslintrc'',
            Exec ''which jshint'', Exec ''test -f tsconfig.json''])
   \<and> fst (runProjectLinter eslint_alone [''a.ts'']) = Some (JArr [])"
proof (intro conjI)
  show "runProjectLinter eslint_reports [''a.js''] =
     (Some (JArr [JNum ''1'']),
      [Exec ''test -f eslint.config.js'', Exec ''test -f .eslintrc.js'',
       Exec ''test -f .eslintrc.json'',
       Spawn ''npx'' [''eslint'', ''--format'', ''json'', ''a.js''] True None])"
    using selector_priority_and_fallthrough
            [where w = eslint_reports and files = "[''a.js'']" and r = "JArr [JNum ''1'']"]
          eslint_reports_facts
    by (simp add: eslint_reports_probes)
  show "runProjectLinter broken_eslint [''a.js''] =
     (Some (findings_json
        [\<lparr> filePath = ''a.js'', line = 1, column = 2, message = ''Bad'',
           severity = ''warning'', rule = ''jshint'', source = ''jshint'' \<rparr>]),
      [Exec ''test -f eslint.config.js'', Exec ''test -f .eslintrc.js'',
       Exec ''test -f .eslintrc.json'',
       Spawn ''npx'' [''eslint'', ''--format'', ''json'', ''a.js''] True None,
       Exec ''which jshint'', Exec ''jshint a.js''])"
    using selector_priority_and_fallthrough [where w = broken_eslint and files = "[''a.js'']"]
          broken_eslint_feasible broken_eslint_report
    by (simp add: broken_eslint_probes broken_eslint_findings)
  show "runProjectLinter no_process [''a.ts''] =
          (Some (JArr []),
           [Exec ''test -f eslint.config.js'', Exec ''test -f .eslintrc.js'',
            Exec ''test -f .eslintrc.json'', Exec ''test -f .eslintrc.yml'',
            Exec ''test -f .eslintrc.yaml'', Exec ''test -f .eslintrc'',
            Exec ''which jshint'', Exec ''test -f tsconfig.json''])"
    using selector_priority_and_fallthrough [where w = no_process and files = "[''a.ts'']"]
          no_process_infeasible
    by blast
  show "fst (runProjectLinter eslint_alone [''a.ts'']) = Some (JArr [])"
    using selector_priority_and_fallthrough [where w = eslint_alone and files = "[''a.ts'']"]
          eslint_alone_facts
    by blast
qed


section \<open>The claims about the orchestrator\<close>

text \<open>
  Claim C10. The hybrid analysis returns the text \<open>{}\<close> exactly when the listing
  succeeds and the filtered change set is empty. With a non-empty change set what it
  returns is the serialization, indented by two spaces, of an object with the keys
  \<open>diff\<close> and \<open>linterReport\<close>, which is never the text \<open>{}\<close>: the comparison the
  orchestrator makes cannot take a payload for the case without changes.
\<close>
theorem sentinel_iff_no_changes:
  "(fst (runHybridAnalysis w) = Some (Inr ''{}'') \<longleftrightarrow>
      (\<exists>gitFiles err. exec w git_names_cmd = Inr (gitFiles, err) \<and> changed_files gitFiles = []))
   \<and> (exec w git_names_cmd = Inr (gitFiles, err) \<and> changed_files gitFiles \<noteq> [] \<and>
       fst (runHybridAnalysis w) = Some (Inr s) \<longrightarrow>
         s \<noteq> ''{}'' \<and>
         (\<exists>gitDiff linterReport.
            s = JSON_stringify (JObj [(''diff'', JStr gitDiff), (''linterReport'', linterReport)])))"
proof (intro conjI impI)
  show "fst (runHybridAnalysis w) = Some (Inr ''{}'') \<longleftrightarrow>
      (\<exists>gitFiles err. exec w git_names_cmd = Inr (gitFiles, err) \<and> changed_files gitFiles = [])"
    by (rule rha_returns_braces_iff)
next
  assume a: "exec w git_names_cmd = Inr (gitFiles, err) \<and> changed_files gitFiles \<noteq> [] \<and>
       fst (runHybridAnalysis w) = Some (Inr s)"
  then have ex: "exec w git_names_cmd = Inr (gitFiles, err)"
    and ne: "changed_files gitFiles \<noteq> []"
    and r: "fst (runHybridAnalysis w) = Some (Inr s)" by simp_all
  show "s \<noteq> ''{}''"
  proof
    assume "s = ''{}''"
    with r have "fst (runHybridAnalysis w) = Some (Inr ''{}'')" by simp
    then obtain g e where "exec w git_names_cmd = Inr (g, e)" "changed_files g = []"
      unfolding rha_returns_braces_iff by blast
    with ex ne show False by simp
  qed
  from rha_payload[OF ex ne r]
  show "\<exists>gitDiff linterReport.
            s = JSON_stringify (JObj [(''diff'', JStr gitDiff), (''linterReport'', linterReport)])"
    by blast
qed

theorem sentinel_iff_no_changes_witness:
  "fst (runHybridAnalysis nothing_changed) = Some (Inr ''{}'')
   \<and> fst (runHybridAnalysis one_changed) =
       Some (Inr (JSON_stringify
                    (JObj [(''diff'', JStr ''--- fixture diff ---''), (''linterReport'', JArr [])])))
   \<and> JSON_stringify (JObj [(''diff'', JStr ''--- fixture diff ---''), (''linterReport'', JArr [])])
       \<noteq> ''{}''"
proof -
  have ne: "changed_files (''a.ts'' @ [NL]) \<noteq> []"
    unfolding one_changed_files by simp
  from sentinel_iff_no_changes[where w = nothing_changed]
       nothing_changed_listing nothing_changed_files
  have "fst (runHybridAnalysis nothing_changed) = Some (Inr ''{}'')" by blast
  moreover
  from sentinel_iff_no_changes
         [where w = one_changed and gitFiles = "''a.ts'' @ [NL]" and err = "[]"
            and s = "JSON_stringify
                  (JObj [(''diff'', JStr ''--- fixture diff ---''), (''linterReport'', JArr [])])"]
       one_changed_listing ne one_changed_payload
  have "JSON_stringify (JObj [(''diff'', JStr ''--- fixture diff ---''), (''linterReport'', JArr [])])
       \<noteq> ''{}''" by blast
  ultimately show ?thesis using one_changed_payload by blast
qed

text \<open>
  Claim C5. When the listing succeeds and the collected change set is empty, the
  orchestrator returns the canonical empty result: the text, indented by two spaces,
  of the object with \<open>summary\<close> \<open>No relevant files changed.\<close>, \<open>assessment\<close> the empty
  string and \<open>findings\<close> the empty array, in this order. The only process of the whole
  run is the collector's own listing: once the change set is known to be empty nothing
  is started, neither a feasibility probe, nor an analyzer, nor the diff, nor the
  external reviewer.
\<close>
theorem no_changes_short_circuit:
  "exec w ''git diff HEAD --name-only --diff-filter=AM'' = Inr (gitFiles, err) \<and>
   changed_files gitFiles = [] \<longrightarrow>
     review_local_changes w =
       (Some (Inr (''{'' @ [CHR 0x0A] @
                   ''  '' @ [CHR 0x22] @ ''summary'' @ [CHR 0x22] @ '': '' @
                     [CHR 0x22] @ ''No relevant files changed.'' @ [CHR 0x22] @ '','' @ [CHR 0x0A] @
                   ''  '' @ [CHR 0x22] @ ''assessment'' @ [CHR 0x22] @ '': '' @
                     [CHR 0x22, CHR 0x22] @ '','' @ [CHR 0x0A] @
                   ''  '' @ [CHR 0x22] @ ''findings'' @ [CHR 0x22] @ '': []'' @ [CHR 0x0A] @
                   ''}'')),
        [Exec ''git diff HEAD --name-only --diff-filter=AM''])
     \<and> fst (review_local_changes w) =
         Some (Inr (JSON_stringify
                 (JObj [(''summary'', JStr ''No relevant files changed.''),
                        (''assessment'', JStr []),
                        (''findings'', JArr [])])))"
proof
  assume a: "exec w ''git diff HEAD --name-only --diff-filter=AM'' = Inr (gitFiles, err) \<and>
             changed_files gitFiles = []"
  then have ex: "exec w git_names_cmd = Inr (gitFiles, err)"
    and cf: "changed_files gitFiles = []"
    unfolding git_names_cmd_def by simp_all
  from rha_no_changes[OF ex cf]
  have "runHybridAnalysis w = (Some (Inr ''{}''), [Exec git_names_cmd])" .
  then have r: "review_local_changes w =
       (Some (Inr (JSON_stringify canonical_empty)),
        [Exec ''git diff HEAD --name-only --diff-filter=AM''])"
    by (simp add: review_local_changes_def git_names_cmd_def)
  have t: "JSON_stringify canonical_empty =
      ''{'' @ [CHR 0x0A] @
      ''  '' @ [CHR 0x22] @ ''summary'' @ [CHR 0x22] @ '': '' @
        [CHR 0x22] @ ''No relevant files changed.'' @ [CHR 0x22] @ '','' @ [CHR 0x0A] @
      ''  '' @ [CHR 0x22] @ ''assessment'' @ [CHR 0x22] @ '': '' @
        [CHR 0x22, CHR 0x22] @ '','' @ [CHR 0x0A] @
      ''  '' @ [CHR 0x22] @ ''findings'' @ [CHR 0x22] @ '': []'' @ [CHR 0x0A] @
      ''}''"
    by code_simp
  have c1: "review_local_changes w =
       (Some (Inr (''{'' @ [CHR 0x0A] @
                   ''  '' @ [CHR 0x22] @ ''summary'' @ [CHR 0x22] @ '': '' @
                     [CHR 0x22] @ ''No relevant files changed.'' @ [CHR 0x22] @ '','' @ [CHR 0x0A] @
                   ''  '' @ [CHR 0x22] @ ''assessment'' @ [CHR 0x22] @ '': '' @
                     [CHR 0x22, CHR 0x22] @ '','' @ [CHR 0x0A] @
                   ''  '' @ [CHR 0x22] @ ''findings'' @ [CHR 0x22] @ '': []'' @ [CHR 0x0A] @
                   ''}'')),
        [Exec ''git diff HEAD --name-only --diff-filter=AM''])"
    unfolding r t ..
  have c2: "fst (review_local_changes w) =
         Some (Inr (JSON_stringify
                 (JObj [(''summary'', JStr ''No relevant files changed.''),
                        (''assessment'', JStr []),
                        (''findings'', JArr [])])))"
    unfolding r canonical_empty_def fst_conv ..
  from c1 c2 show "review_local_changes w =
       (Some (Inr (''{'' @ [CHR 0x0A] @
                   ''  '' @ [CHR 0x22] @ ''summary'' @ [CHR 0x22] @ '': '' @
                     [CHR 0x22] @ ''No relevant files changed.'' @ [CHR 0x22] @ '','' @ [CHR 0x0A] @
                   ''  '' @ [CHR 0x22] @ ''assessment'' @ [CHR 0x22] @ '': '' @
                     [CHR 0x22, CHR 0x22] @ '','' @ [CHR 0x0A] @
                   ''  '' @ [CHR 0x22] @ ''findings'' @ [CHR 0x22] @ '': []'' @ [CHR 0x0A] @
                   ''}'')),
        [Exec ''git diff HEAD --name-only --diff-filter=AM''])
     \<and> fst (review_local_changes w) =
         Some (Inr (JSON_stringify
                 (JObj [(''summary'', JStr ''No relevant files changed.''),
                        (''assessment'', JStr []),
                        (''findings'', JArr [])])))"
    by (rule conjI)
qed

theorem no_changes_short_circuit_witness:
  "review_local_changes nothing_changed =
       (Some (Inr (''{'' @ [CHR 0x0A] @
                   ''  '' @ [CHR 0x22] @ ''summary'' @ [CHR 0x22] @ '': '' @
                     [CHR 0x22] @ ''No relevant files changed.'' @ [CHR 0x22] @ '','' @ [CHR 0x0A] @
                   ''  '' @ [CHR 0x22] @ ''assessment'' @ [CHR 0x22] @ '': '' @
                     [CHR 0x22, CHR 0x22] @ '','' @ [CHR 0x0A] @
                   ''  '' @ [CHR 0x22] @ ''findings'' @ [CHR 0x22] @ '': []'' @ [CHR 0x0A] @
                   ''}'')),
        [Exec ''git diff HEAD --name-only --diff-filter=AM''])"
proof -
  have l: "exec nothing_changed ''git diff HEAD --name-only --diff-filter=AM'' =
      Inr (''README.md'' @ [NL], [])"
    using nothing_changed_listing by (simp add: git_names_cmd_def)
  from no_changes_short_circuit[where w = nothing_changed and gitFiles = "''README.md'' @ [NL]"
                                   and err = "[]"]
       l nothing_changed_files
  show ?thesis by blast
qed


section \<open>The claim about the argument vectors of the analyzers\<close>

text \<open>
  Claim C7, the code at the change set \<open>["a;b.js"]\<close>. The JSHint invocation hands the
  shell the command line \<open>jshint a;b.js\<close>, with the path spliced into it. The ESLint
  invocation passes the path as an element of the argument vector of \<open>spawn\<close>, with
  the option \<open>shell: true\<close>.
\<close>
theorem jshint_path_in_shell_command:
  "snd (jshint_try jshint_only [''a;b.js'']) = [Exec ''jshint a;b.js'']
   \<and> snd (spawnEslint jshint_only [''a;b.js''] 30000) =
       [Spawn ''npx'' [''eslint'', ''--format'', ''json'', ''a;b.js''] True None]"
  by (simp add: jshint_try_def spawnEslint_def jshint_only_def no_process_def)

end
